theory Spec2Isabelle
  imports Main "HOL-Library.AList" "HOL-Library.Multiset" "HOL-Library.Sublist"
begin

section \<open>Python values and dictionaries\<close>

text \<open>
  The program of \<^verbatim>\<open>knowledge_graph_explorer.py\<close> works on Python dictionaries whose
  values are strings, integers and lists of strings. A dictionary keeps its keys in
  insertion order and an assignment to an existing key keeps the key's place, which is
  what \<open>AList.update\<close> does on an association list.
\<close>

datatype pyval = PStr string | PInt int | PList "string list"

type_synonym pydict = "(string \<times> pyval) list"

text \<open>\<^verbatim>\<open>d.update(kvs)\<close>: every pair of \<open>kvs\<close> is assigned in turn.\<close>

definition dict_update :: "pydict \<Rightarrow> pydict \<Rightarrow> pydict" where
  "dict_update d kvs = fold (\<lambda>(k, v). AList.update k v) kvs d"

text \<open>
  Truth value of an optional list argument (\<^verbatim>\<open>if filter_types:\<close>): \<^verbatim>\<open>None\<close> and the
  empty list are both false.
\<close>

fun truthy :: "'a list option \<Rightarrow> bool" where
  "truthy None = False"
| "truthy (Some xs) = (xs \<noteq> [])"

text \<open>
  \<^verbatim>\<open>d.get(key) in names\<close> for a list of strings \<open>names\<close>: a missing key gives \<^verbatim>\<open>None\<close>,
  which is no member of a list of strings, and neither is an integer or a list.
\<close>

definition get_in :: "pydict \<Rightarrow> string \<Rightarrow> string list option \<Rightarrow> bool" where
  "get_in d key names =
     (case (map_of d key, names) of
        (Some (PStr s), Some ns) \<Rightarrow> s \<in> set ns
      | _ \<Rightarrow> False)"

section \<open>The directed graph (\<^verbatim>\<open>networkx.DiGraph\<close>)\<close>

text \<open>
  A \<^verbatim>\<open>DiGraph\<close> holds one attribute dictionary per node and one per ordered pair of
  adjacent nodes. \<open>g_node\<close> is the node dictionary; \<open>g_adj\<close> is the adjacency
  dictionary, flattened to the key \<open>(u, v)\<close>.

  \<^item> \<^verbatim>\<open>add_node(n, **attr)\<close> creates the node with \<open>attr\<close> or merges \<open>attr\<close> into the
    attributes the node already has.
  \<^item> \<^verbatim>\<open>add_edge(u, v, **attr)\<close> creates missing end points with no attributes, then
    merges \<open>attr\<close> into the attribute dictionary of the edge \<open>(u, v)\<close>, which is created
    empty when the edge is new. There is one such dictionary per pair \<open>(u, v)\<close>.
\<close>

record digraph =
  g_node :: "(string \<times> pydict) list"
  g_adj :: "((string \<times> string) \<times> pydict) list"

definition DiGraph :: digraph where
  "DiGraph = \<lparr>g_node = [], g_adj = []\<rparr>"

text \<open>\<^verbatim>\<open>n in G\<close>\<close>

definition has_node :: "digraph \<Rightarrow> string \<Rightarrow> bool" where
  "has_node G n = (map_of (g_node G) n \<noteq> None)"

definition add_node :: "string \<Rightarrow> pydict \<Rightarrow> digraph \<Rightarrow> digraph" where
  "add_node n attr G =
     G\<lparr>g_node :=
         AList.update n
           (dict_update (case map_of (g_node G) n of None \<Rightarrow> [] | Some d \<Rightarrow> d) attr)
           (g_node G)\<rparr>"

definition add_edge :: "string \<Rightarrow> string \<Rightarrow> pydict \<Rightarrow> digraph \<Rightarrow> digraph" where
  "add_edge u v attr G =
     (let G1 = (if has_node G u then G else add_node u [] G);
          G2 = (if has_node G1 v then G1 else add_node v [] G1)
      in G2\<lparr>g_adj :=
           AList.update (u, v)
             (dict_update (case map_of (g_adj G2) (u, v) of None \<Rightarrow> [] | Some d \<Rightarrow> d) attr)
             (g_adj G2)\<rparr>)"

text \<open>\<^verbatim>\<open>G.successors(n)\<close> and \<^verbatim>\<open>G.predecessors(n)\<close>\<close>

definition successors :: "digraph \<Rightarrow> string \<Rightarrow> string list" where
  "successors G n = map (snd \<circ> fst) (filter (\<lambda>e. fst (fst e) = n) (g_adj G))"

definition predecessors :: "digraph \<Rightarrow> string \<Rightarrow> string list" where
  "predecessors G n = map (fst \<circ> fst) (filter (\<lambda>e. snd (fst e) = n) (g_adj G))"

text \<open>The node identifiers and the adjacent pairs of a graph, as sets.\<close>

definition node_ids :: "digraph \<Rightarrow> string set" where
  "node_ids G = fst ` set (g_node G)"

definition edge_keys :: "digraph \<Rightarrow> (string \<times> string) set" where
  "edge_keys G = fst ` set (g_adj G)"

text \<open>
  The class invariant of a \<^verbatim>\<open>DiGraph\<close>: keys are unique and every edge joins two nodes
  of the graph.
\<close>

definition wf_digraph :: "digraph \<Rightarrow> bool" where
  "wf_digraph G \<longleftrightarrow>
     distinct (map fst (g_node G)) \<and> distinct (map fst (g_adj G)) \<and>
     list_all (\<lambda>e. has_node G (fst (fst e)) \<and> has_node G (snd (fst e))) (g_adj G)"

section \<open>The subgraph selector (\<^verbatim>\<open>create_pyvis_graph\<close>, filtering part)\<close>

text \<open>A \<^verbatim>\<open>for i in range(k)\<close> loop whose body transforms one variable.\<close>

fun for_range :: "nat \<Rightarrow> ('a \<Rightarrow> 'a) \<Rightarrow> 'a \<Rightarrow> 'a" where
  "for_range 0 body x = x"
| "for_range (Suc k) body x = for_range k body (body x)"

text \<open>
  One pass of the inner loop
  \<^verbatim>\<open>for n in list(neighbors) + [node_id]: if n in G: neighbors.update(step(n))\<close>.
  The list is taken before the pass starts, so the pass adds the \<open>step\<close> of every
  member of the old set and of \<open>node_id\<close>.
\<close>

definition expand_pass ::
  "(digraph \<Rightarrow> string \<Rightarrow> string list) \<Rightarrow> digraph \<Rightarrow> string \<Rightarrow> string set \<Rightarrow> string set" where
  "expand_pass step G node_id neighbors =
     neighbors \<union> (\<Union>n \<in> neighbors \<union> {node_id}. if has_node G n then set (step G n) else {})"

text \<open>
  The neighbours collected for one seed: \<open>k\<close> passes along successors, then \<open>k\<close>
  passes along predecessors, the second loop starting from what the first one found.
\<close>

definition seed_neighbors :: "digraph \<Rightarrow> nat \<Rightarrow> string \<Rightarrow> string set" where
  "seed_neighbors G k node_id =
     for_range k (expand_pass predecessors G node_id)
       (for_range k (expand_pass successors G node_id) {})"

definition nodes_to_include ::
  "digraph \<Rightarrow> string list option \<Rightarrow> string list option \<Rightarrow> int \<Rightarrow> string set" where
  "nodes_to_include G filter_types filter_node_ids neighborhood_degree =
     (let seeds = (case filter_node_ids of
                     None \<Rightarrow> {}
                   | Some ids \<Rightarrow> set (filter (has_node G) ids));
          grown = (if truthy filter_node_ids \<and> neighborhood_degree > 0
                   then seeds \<union> (\<Union>node_id \<in> seeds. seed_neighbors G (nat neighborhood_degree) node_id)
                   else seeds);
          typed = (if truthy filter_types
                   then grown \<union> set (map fst (filter (\<lambda>(n, d). get_in d ''type'' filter_types) (g_node G)))
                   else grown)
      in if \<not> truthy filter_node_ids \<and> \<not> truthy filter_types then node_ids G else typed)"

text \<open>
  The filtered copy. The members of the Python set \<open>nodes_to_include\<close> are all nodes of
  \<open>G\<close>; they are added in the order of \<open>G\<close>'s node dictionary (the iteration order of a
  Python set is not specified).
\<close>

definition select_subgraph ::
  "digraph \<Rightarrow> string list option \<Rightarrow> string list option \<Rightarrow> string list option \<Rightarrow> int \<Rightarrow> digraph" where
  "select_subgraph G filter_types filter_node_ids filter_relationships neighborhood_degree =
     (if truthy filter_types \<or> truthy filter_node_ids \<or> truthy filter_relationships then
        (let N = nodes_to_include G filter_types filter_node_ids neighborhood_degree;
             S1 = fold (\<lambda>(n, d). add_node n d) (filter (\<lambda>(n, d). n \<in> N) (g_node G)) DiGraph
         in fold (\<lambda>((u, v), data) S.
                    if u \<in> N \<and> v \<in> N then
                      (if \<not> truthy filter_relationships \<or> get_in data ''relation'' filter_relationships
                       then add_edge u v data S else S)
                    else S)
                 (g_adj G) S1)
      else G)"

text \<open>
  The reading of the neighbourhood that the specification gives: the nodes within \<open>k\<close>
  hops of a start set, each hop along an edge in either direction.
\<close>

fun within_hops :: "digraph \<Rightarrow> string set \<Rightarrow> nat \<Rightarrow> string set" where
  "within_hops G S 0 = S"
| "within_hops G S (Suc k) =
     within_hops G S k \<union>
     (\<Union>n \<in> within_hops G S k. set (successors G n) \<union> set (predecessors G n))"

text \<open>The nodes whose \<^verbatim>\<open>type\<close> attribute is the given kind.\<close>

definition nodes_of_type :: "digraph \<Rightarrow> string \<Rightarrow> string set" where
  "nodes_of_type G t =
     set (map fst (filter (\<lambda>(n, d). map_of d ''type'' = Some (PStr t)) (g_node G)))"

section \<open>Regular expressions of the parser (\<^verbatim>\<open>re.finditer\<close>)\<close>

text \<open>
  A script is the list of its code points; the model covers scripts whose code points lie
  below 256. The seven patterns of \<^verbatim>\<open>parse_cypher_file\<close> are sequences of literal text,
  of the repetitions \<^verbatim>\<open>\s*\<close>, \<^verbatim>\<open>\d+\<close>, \<^verbatim>\<open>\w+\<close>, \<^verbatim>\<open>[^"]+\<close>, \<^verbatim>\<open>[^"]*\<close>, and of capturing groups
  around such repetitions. For a \<^verbatim>\<open>str\<close> pattern the classes are the Unicode ones; below
  256 they are the sets written out here.
\<close>

datatype cls = Digit | Space | Word | NotQuote

fun in_cls :: "cls \<Rightarrow> char \<Rightarrow> bool" where
  "in_cls Digit c = (let n = (of_char c :: nat) in 48 \<le> n \<and> n \<le> 57)"
| "in_cls Space c =
     (let n = (of_char c :: nat) in (9 \<le> n \<and> n \<le> 13) \<or> (28 \<le> n \<and> n \<le> 32) \<or> n = 133 \<or> n = 160)"
| "in_cls Word c =
     (let n = (of_char c :: nat) in
        (48 \<le> n \<and> n \<le> 57) \<or> (65 \<le> n \<and> n \<le> 90) \<or> n = 95 \<or> (97 \<le> n \<and> n \<le> 122) \<or>
        n = 170 \<or> (178 \<le> n \<and> n \<le> 179) \<or> n = 181 \<or> (185 \<le> n \<and> n \<le> 186) \<or>
        (188 \<le> n \<and> n \<le> 190) \<or> (192 \<le> n \<and> n \<le> 214) \<or> (216 \<le> n \<and> n \<le> 246) \<or>
        (248 \<le> n \<and> n \<le> 255))"
| "in_cls NotQuote c = (c \<noteq> CHR 0x22)"

datatype item = Lit string | Star cls | Plus cls

datatype piece = Item item | Group "item list"

text \<open>
  Backtracking matching at the start of \<open>s\<close>. The result lists every way the items can
  match, as the text matched and the text left over, in the order in which the matcher
  tries them: a greedy repetition takes as many characters as it can and gives them back
  one at a time.
\<close>

fun strip_prefix :: "string \<Rightarrow> string \<Rightarrow> string option" where
  "strip_prefix [] s = Some s"
| "strip_prefix (x # xs) [] = None"
| "strip_prefix (x # xs) (y # ys) = (if x = y then strip_prefix xs ys else None)"

fun rep_splits :: "cls \<Rightarrow> string \<Rightarrow> (string \<times> string) list" where
  "rep_splits c [] = [([], [])]"
| "rep_splits c (x # xs) =
     (if in_cls c x then map (\<lambda>(t, r). (x # t, r)) (rep_splits c xs) @ [([], x # xs)]
      else [([], x # xs)])"

fun match_items :: "item list \<Rightarrow> string \<Rightarrow> (string \<times> string) list" where
  "match_items [] s = [([], s)]"
| "match_items (Lit l # is) s =
     (case strip_prefix l s of
        None \<Rightarrow> []
      | Some r \<Rightarrow> map (\<lambda>(w, r'). (l @ w, r')) (match_items is r))"
| "match_items (Star c # is) s =
     concat (map (\<lambda>(t, r). map (\<lambda>(w, r'). (t @ w, r')) (match_items is r))
                 (rep_splits c s))"
| "match_items (Plus c # is) s =
     concat (map (\<lambda>(t, r). map (\<lambda>(w, r'). (t @ w, r')) (match_items is r))
                 (filter (\<lambda>(t, r). t \<noteq> []) (rep_splits c s)))"

text \<open>
  The same for a whole pattern; each way to match comes with the texts of the groups
  (\<^verbatim>\<open>match.groups()\<close>), the text matched and the text left over.
\<close>

fun match_pieces :: "piece list \<Rightarrow> string \<Rightarrow> (string list \<times> string \<times> string) list" where
  "match_pieces [] s = [([], [], s)]"
| "match_pieces (Item i # ps) s =
     concat (map (\<lambda>(t, r). map (\<lambda>(caps, w, r'). (caps, t @ w, r')) (match_pieces ps r))
                 (match_items [i] s))"
| "match_pieces (Group g # ps) s =
     concat (map (\<lambda>(t, r). map (\<lambda>(caps, w, r'). (t # caps, t @ w, r')) (match_pieces ps r))
                 (match_items g s))"

text \<open>
  The match the engine reports at a position is the first one it finds: its groups and
  the text it matched.
\<close>

definition match_at :: "piece list \<Rightarrow> string \<Rightarrow> (string list \<times> string) option" where
  "match_at p s = (case match_pieces p s of [] \<Rightarrow> None | (caps, w, r) # _ \<Rightarrow> Some (caps, w))"

text \<open>
  \<^verbatim>\<open>re.finditer\<close>: the groups of the matches from left to right, each search starting
  where the match before it ended. \<open>scan p k s\<close> has still \<open>k\<close> characters of the last match
  to pass over before it searches again; after a match of the empty string the search
  goes on at the next character.
\<close>

fun scan :: "piece list \<Rightarrow> nat \<Rightarrow> string \<Rightarrow> string list list" where
  "scan p k [] = (case match_at p [] of Some (caps, w) \<Rightarrow> [caps] | None \<Rightarrow> [])"
| "scan p 0 (c # s) =
     (case match_at p (c # s) of
        Some (caps, w) \<Rightarrow> caps # scan p (length w - 1) s
      | None \<Rightarrow> scan p 0 s)"
| "scan p (Suc k) (c # s) = scan p k s"

definition finditer :: "piece list \<Rightarrow> string \<Rightarrow> string list list" where
  "finditer p s = scan p 0 s"

text \<open>The double quote, and the patterns, piece by piece as the source writes them.\<close>

definition DQ :: string where
  "DQ = [CHR 0x22]"

definition knowledge_node_pattern :: "piece list" where
  "knowledge_node_pattern =
     [Item (Lit ''CREATE (n:KnowledgeNode {''), Item (Star Space),
      Item (Lit ''id: ''), Item (Lit DQ), Group [Lit ''N'', Plus Digit], Item (Lit DQ), Item (Lit '',''),
      Item (Star Space),
      Item (Lit ''title: ''), Item (Lit DQ), Group [Plus NotQuote], Item (Lit DQ), Item (Lit '',''),
      Item (Star Space),
      Item (Lit ''description: ''), Item (Lit DQ), Group [Plus NotQuote], Item (Lit DQ), Item (Lit '',''),
      Item (Star Space),
      Item (Lit ''difficulty: ''), Item (Lit DQ), Group [Plus NotQuote], Item (Lit DQ), Item (Lit '',''),
      Item (Star Space),
      Item (Lit ''estimatedMinutes: ''), Group [Plus Digit], Item (Lit '',''),
      Item (Star Space),
      Item (Lit ''source_lesson: ''), Item (Lit DQ), Group [Star NotQuote], Item (Lit DQ), Item (Lit '',''),
      Item (Star Space),
      Item (Lit ''source_title: ''), Item (Lit DQ), Group [Star NotQuote], Item (Lit DQ),
      Item (Star Space), Item (Lit ''});'')]"

definition concept_pattern :: "piece list" where
  "concept_pattern =
     [Item (Lit ''CREATE (c:Concept {''), Item (Star Space),
      Item (Lit ''id: ''), Item (Lit DQ), Group [Lit ''CONCEPT-'', Plus Digit], Item (Lit DQ), Item (Lit '',''),
      Item (Star Space),
      Item (Lit ''name: ''), Item (Lit DQ), Group [Plus NotQuote], Item (Lit DQ), Item (Lit '',''),
      Item (Star Space),
      Item (Lit ''description: ''), Item (Lit DQ), Group [Plus NotQuote], Item (Lit DQ), Item (Lit '',''),
      Item (Star Space),
      Item (Lit ''estimatedMinutes: ''), Group [Plus Digit],
      Item (Star Space), Item (Lit ''});'')]"

definition path_pattern :: "piece list" where
  "path_pattern =
     [Item (Lit ''CREATE (p:LearningPath {''), Item (Star Space),
      Item (Lit ''id: ''), Item (Lit DQ), Group [Lit ''PATH-'', Plus Digit], Item (Lit DQ), Item (Lit '',''),
      Item (Star Space),
      Item (Lit ''name: ''), Item (Lit DQ), Group [Plus NotQuote], Item (Lit DQ), Item (Lit '',''),
      Item (Star Space),
      Item (Lit ''description: ''), Item (Lit DQ), Group [Plus NotQuote], Item (Lit DQ), Item (Lit '',''),
      Item (Star Space),
      Item (Lit ''targetAudience: ''), Item (Lit DQ), Group [Star NotQuote], Item (Lit DQ), Item (Lit '',''),
      Item (Star Space),
      Item (Lit ''keyCompetencies: ''), Item (Lit DQ), Group [Star NotQuote], Item (Lit DQ), Item (Lit '',''),
      Item (Star Space),
      Item (Lit ''estimatedMinutes: ''), Group [Plus Digit],
      Item (Star Space), Item (Lit ''});'')]"

definition node_relationship_pattern :: "piece list" where
  "node_relationship_pattern =
     [Item (Lit ''MATCH (a:KnowledgeNode {id: ''), Item (Lit DQ), Group [Lit ''N'', Plus Digit], Item (Lit DQ),
      Item (Lit ''}), (b:KnowledgeNode {id: ''), Item (Lit DQ), Group [Lit ''N'', Plus Digit], Item (Lit DQ),
      Item (Lit ''})''), Item (Star Space),
      Item (Lit ''CREATE (a)-[:''), Group [Plus Word],
      Item (Lit '' {strength: ''), Group [Plus Digit],
      Item (Lit '', justification: ''), Item (Lit DQ), Group [Plus NotQuote], Item (Lit DQ),
      Item (Lit ''}]->(b);'')]"

definition concept_node_pattern :: "piece list" where
  "concept_node_pattern =
     [Item (Lit ''MATCH (c:Concept {id: ''), Item (Lit DQ), Group [Lit ''CONCEPT-'', Plus Digit], Item (Lit DQ),
      Item (Lit ''}), (n:KnowledgeNode {id: ''), Item (Lit DQ), Group [Lit ''N'', Plus Digit], Item (Lit DQ),
      Item (Lit ''})''), Item (Star Space),
      Item (Lit ''CREATE (c)-[:CONTAINS {sequence: ''), Group [Plus Digit],
      Item (Lit ''}]->(n);'')]"

definition path_concept_pattern :: "piece list" where
  "path_concept_pattern =
     [Item (Lit ''MATCH (p:LearningPath {id: ''), Item (Lit DQ), Group [Lit ''PATH-'', Plus Digit], Item (Lit DQ),
      Item (Lit ''}), (c:Concept {id: ''), Item (Lit DQ), Group [Lit ''CONCEPT-'', Plus Digit], Item (Lit DQ),
      Item (Lit ''})''), Item (Star Space),
      Item (Lit ''CREATE (p)-[:INCLUDES {sequence: ''), Group [Plus Digit],
      Item (Lit ''}]->(c);'')]"

definition prereq_pattern :: "piece list" where
  "prereq_pattern =
     [Item (Lit ''MATCH (a:Concept {id: ''), Item (Lit DQ), Group [Lit ''CONCEPT-'', Plus Digit], Item (Lit DQ),
      Item (Lit ''}), (b:Concept {id: ''), Item (Lit DQ), Group [Lit ''CONCEPT-'', Plus Digit], Item (Lit DQ),
      Item (Lit ''})''), Item (Star Space),
      Item (Lit ''CREATE (a)-[:PREREQUISITE_FOR]->(b);'')]"

section \<open>The parser (\<^verbatim>\<open>parse_cypher_file\<close>)\<close>

text \<open>
  The dictionaries the parser builds have fixed keys and are records here. The keys
  \<^verbatim>\<open>sequence\<close> of a concept and \<^verbatim>\<open>conceptSequence\<close> of a learning path are only assigned
  for some entities: an absent key is \<open>None\<close>.
\<close>

record knowledge_node =
  kn_id :: string
  kn_title :: string
  kn_description :: string
  kn_difficulty :: string
  kn_estimatedMinutes :: int
  kn_source_lesson :: string
  kn_source_title :: string

record concept =
  c_id :: string
  c_name :: string
  c_description :: string
  c_estimatedMinutes :: int
  c_nodes :: "string list"
  c_sequence :: "string list option"

record learning_path =
  p_id :: string
  p_name :: string
  p_description :: string
  p_targetAudience :: string
  p_keyCompetencies :: "string list"
  p_estimatedMinutes :: int
  p_concepts :: "string list"
  p_conceptSequence :: "string list option"

record relationship =
  r_source :: string
  r_target :: string
  r_type :: string
  r_strength :: int
  r_justification :: string

record graph_data =
  gd_knowledge_nodes :: "(string \<times> knowledge_node) list"
  gd_concepts :: "(string \<times> concept) list"
  gd_learning_paths :: "(string \<times> learning_path) list"
  gd_relationships :: "relationship list"

datatype py_error = ValueError

text \<open>
  \<^verbatim>\<open>int(s)\<close> for the text of a \<^verbatim>\<open>\d+\<close> group. Python integers are unbounded, but CPython
  refuses to convert a decimal string of more than \<^verbatim>\<open>sys.int_info.default_max_str_digits\<close>
  = 4300 digits and raises \<^verbatim>\<open>ValueError\<close> (the limit on integer string conversion that
  CPython 3.11 introduced and the maintenance releases of 3.7 to 3.10 took over). A
  string that is empty or has another character is no decimal number.
\<close>

definition int_max_str_digits :: nat where
  "int_max_str_digits = 4300"

definition digit_value :: "char \<Rightarrow> int" where
  "digit_value c = of_char c - 48"

definition py_int :: "string \<Rightarrow> py_error + int" where
  "py_int s =
     (if s = [] \<or> \<not> list_all (in_cls Digit) s then Inl ValueError
      else if length s > int_max_str_digits then Inl ValueError
      else Inr (fold (\<lambda>c n. 10 * n + digit_value c) s 0))"

text \<open>\<^verbatim>\<open>s.split(sep)\<close> for a separator of one character.\<close>

fun split_on :: "char \<Rightarrow> string \<Rightarrow> string list" where
  "split_on sep [] = [[]]"
| "split_on sep (x # xs) =
     (if x = sep then [] # split_on sep xs
      else (case split_on sep xs of [] \<Rightarrow> [[x]] | w # ws \<Rightarrow> (x # w) # ws))"

text \<open>
  A \<^verbatim>\<open>for\<close> loop over the matches whose body may raise: the first exception ends the
  loop and the function.
\<close>

fun try_fold :: "('a \<Rightarrow> 's \<Rightarrow> py_error + 's) \<Rightarrow> 'a list \<Rightarrow> 's \<Rightarrow> py_error + 's" where
  "try_fold body [] s = Inr s"
| "try_fold body (x # xs) s =
     (case body x s of Inl e \<Rightarrow> Inl e | Inr s' \<Rightarrow> try_fold body xs s')"

definition bind :: "py_error + 'a \<Rightarrow> ('a \<Rightarrow> py_error + 'b) \<Rightarrow> py_error + 'b" where
  "bind r k = (case r of Inl e \<Rightarrow> Inl e | Inr x \<Rightarrow> k x)"

text \<open>
  The loop bodies, one per pattern. Unpacking \<^verbatim>\<open>match.groups()\<close> into the wrong number
  of names would raise \<^verbatim>\<open>ValueError\<close>.
\<close>

fun add_knowledge_node ::
  "string list \<Rightarrow> (string \<times> knowledge_node) list \<Rightarrow> py_error + (string \<times> knowledge_node) list" where
  "add_knowledge_node [node_id, title, description, difficulty, minutes, source_lesson, source_title]
       knowledge_nodes =
     bind (py_int minutes) (\<lambda>m.
       Inr (AList.update node_id
              \<lparr>kn_id = node_id, kn_title = title, kn_description = description,
               kn_difficulty = difficulty, kn_estimatedMinutes = m,
               kn_source_lesson = source_lesson, kn_source_title = source_title\<rparr>
              knowledge_nodes))"
| "add_knowledge_node _ knowledge_nodes = Inl ValueError"

fun add_concept ::
  "string list \<Rightarrow> (string \<times> concept) list \<Rightarrow> py_error + (string \<times> concept) list" where
  "add_concept [concept_id, name, description, minutes] concepts =
     bind (py_int minutes) (\<lambda>m.
       Inr (AList.update concept_id
              \<lparr>c_id = concept_id, c_name = name, c_description = description,
               c_estimatedMinutes = m, c_nodes = [], c_sequence = None\<rparr>
              concepts))"
| "add_concept _ concepts = Inl ValueError"

fun add_learning_path ::
  "string list \<Rightarrow> (string \<times> learning_path) list \<Rightarrow> py_error + (string \<times> learning_path) list" where
  "add_learning_path [path_id, name, description, target_audience, key_competencies, minutes]
       learning_paths =
     bind (py_int minutes) (\<lambda>m.
       Inr (AList.update path_id
              \<lparr>p_id = path_id, p_name = name, p_description = description,
               p_targetAudience = target_audience,
               p_keyCompetencies =
                 (if key_competencies \<noteq> [] then split_on CHR '';'' key_competencies else []),
               p_estimatedMinutes = m, p_concepts = [], p_conceptSequence = None\<rparr>
              learning_paths))"
| "add_learning_path _ learning_paths = Inl ValueError"

fun add_node_relationship :: "string list \<Rightarrow> relationship list \<Rightarrow> py_error + relationship list" where
  "add_node_relationship [source, target, rel_type, strength, justification] relationships =
     bind (py_int strength) (\<lambda>st.
       Inr (relationships @
              [\<lparr>r_source = source, r_target = target, r_type = rel_type,
                r_strength = st, r_justification = justification\<rparr>]))"
| "add_node_relationship _ relationships = Inl ValueError"

text \<open>
  The CONTAINS loop keeps two dictionaries: \<open>concept_nodes\<close>, from a concept identifier to
  the pairs (node, declared sequence number) in statement order, and \<open>concepts\<close>, whose
  \<^verbatim>\<open>nodes\<close> list takes each node once, for the concepts that exist.
\<close>

definition get_list :: "(string \<times> 'a list) list \<Rightarrow> string \<Rightarrow> 'a list" where
  "get_list d k = (case map_of d k of None \<Rightarrow> [] | Some xs \<Rightarrow> xs)"

fun add_concept_node ::
  "string list \<Rightarrow> (string \<times> (string \<times> int) list) list \<times> (string \<times> concept) list \<Rightarrow>
     py_error + (string \<times> (string \<times> int) list) list \<times> (string \<times> concept) list" where
  "add_concept_node [concept_id, node_id, sequence] (concept_nodes, concepts) =
     bind (py_int sequence) (\<lambda>sq.
       Inr (AList.update concept_id (get_list concept_nodes concept_id @ [(node_id, sq)]) concept_nodes,
            (case map_of concepts concept_id of
               None \<Rightarrow> concepts
             | Some c \<Rightarrow>
                 if node_id \<notin> set (c_nodes c)
                 then AList.update concept_id (c\<lparr>c_nodes := c_nodes c @ [node_id]\<rparr>) concepts
                 else concepts)))"
| "add_concept_node _ st = Inl ValueError"

text \<open>
  \<^verbatim>\<open>sorted(nodes, key=lambda x: x[1])\<close> is a stable ascending sort by the second
  component, as \<open>sort_key snd\<close> is.
\<close>

definition set_sequence ::
  "string \<times> (string \<times> int) list \<Rightarrow> (string \<times> concept) list \<Rightarrow> (string \<times> concept) list" where
  "set_sequence = (\<lambda>(concept_id, nodes) concepts.
     (let sorted_nodes = sort_key snd nodes
      in case map_of concepts concept_id of
           None \<Rightarrow> concepts
         | Some c \<Rightarrow> AList.update concept_id (c\<lparr>c_sequence := Some (map fst sorted_nodes)\<rparr>) concepts))"

fun add_path_concept ::
  "string list \<Rightarrow> (string \<times> (string \<times> int) list) list \<times> (string \<times> learning_path) list \<Rightarrow>
     py_error + (string \<times> (string \<times> int) list) list \<times> (string \<times> learning_path) list" where
  "add_path_concept [path_id, concept_id, sequence] (path_concepts, learning_paths) =
     bind (py_int sequence) (\<lambda>sq.
       Inr (AList.update path_id (get_list path_concepts path_id @ [(concept_id, sq)]) path_concepts,
            (case map_of learning_paths path_id of
               None \<Rightarrow> learning_paths
             | Some p \<Rightarrow>
                 if concept_id \<notin> set (p_concepts p)
                 then AList.update path_id (p\<lparr>p_concepts := p_concepts p @ [concept_id]\<rparr>) learning_paths
                 else learning_paths)))"
| "add_path_concept _ st = Inl ValueError"

definition set_conceptSequence ::
  "string \<times> (string \<times> int) list \<Rightarrow> (string \<times> learning_path) list \<Rightarrow> (string \<times> learning_path) list" where
  "set_conceptSequence = (\<lambda>(path_id, concepts_list) learning_paths.
     (let sorted_concepts = sort_key snd concepts_list
      in case map_of learning_paths path_id of
           None \<Rightarrow> learning_paths
         | Some p \<Rightarrow>
             AList.update path_id (p\<lparr>p_conceptSequence := Some (map fst sorted_concepts)\<rparr>) learning_paths))"

fun add_prereq :: "string list \<Rightarrow> relationship list \<Rightarrow> py_error + relationship list" where
  "add_prereq [prereq_id, concept_id] relationships =
     Inr (relationships @
            [\<lparr>r_source = prereq_id, r_target = concept_id, r_type = ''PREREQUISITE_FOR'',
              r_strength = 4, r_justification = ''Prerequisite concept''\<rparr>])"
| "add_prereq _ relationships = Inl ValueError"

text \<open>
  The parser on the text of the file: seven scans of the whole text, in the order of the
  source. Reading the file and the status messages are left out.
\<close>

definition parse_cypher_file :: "string \<Rightarrow> py_error + graph_data" where
  "parse_cypher_file cypher_script =
     bind (try_fold add_knowledge_node (finditer knowledge_node_pattern cypher_script) [])
       (\<lambda>knowledge_nodes.
     bind (try_fold add_concept (finditer concept_pattern cypher_script) [])
       (\<lambda>concepts0.
     bind (try_fold add_learning_path (finditer path_pattern cypher_script) [])
       (\<lambda>learning_paths0.
     bind (try_fold add_node_relationship (finditer node_relationship_pattern cypher_script) [])
       (\<lambda>relationships0.
     bind (try_fold add_concept_node (finditer concept_node_pattern cypher_script) ([], concepts0))
       (\<lambda>(concept_nodes, concepts1).
     let concepts2 = fold set_sequence concept_nodes concepts1 in
     bind (try_fold add_path_concept (finditer path_concept_pattern cypher_script) ([], learning_paths0))
       (\<lambda>(path_concepts, learning_paths1).
     let learning_paths2 = fold set_conceptSequence path_concepts learning_paths1 in
     bind (try_fold add_prereq (finditer prereq_pattern cypher_script) relationships0)
       (\<lambda>relationships1.
     Inr \<lparr>gd_knowledge_nodes = knowledge_nodes, gd_concepts = concepts2,
          gd_learning_paths = learning_paths2, gd_relationships = relationships1\<rparr>)))))))"

section \<open>The graph builder (\<^verbatim>\<open>build_networkx_graph\<close>)\<close>

text \<open>\<^verbatim>\<open>dict(node_data)\<close>: the entity as an attribute dictionary, keys in insertion order.\<close>

definition knowledge_node_dict :: "knowledge_node \<Rightarrow> pydict" where
  "knowledge_node_dict d =
     [(''id'', PStr (kn_id d)), (''title'', PStr (kn_title d)),
      (''description'', PStr (kn_description d)), (''difficulty'', PStr (kn_difficulty d)),
      (''estimatedMinutes'', PInt (kn_estimatedMinutes d)),
      (''source_lesson'', PStr (kn_source_lesson d)), (''source_title'', PStr (kn_source_title d))]"

definition concept_dict :: "concept \<Rightarrow> pydict" where
  "concept_dict d =
     [(''id'', PStr (c_id d)), (''name'', PStr (c_name d)),
      (''description'', PStr (c_description d)),
      (''estimatedMinutes'', PInt (c_estimatedMinutes d)), (''nodes'', PList (c_nodes d))]
     @ (case c_sequence d of None \<Rightarrow> [] | Some s \<Rightarrow> [(''sequence'', PList s)])"

definition learning_path_dict :: "learning_path \<Rightarrow> pydict" where
  "learning_path_dict d =
     [(''id'', PStr (p_id d)), (''name'', PStr (p_name d)),
      (''description'', PStr (p_description d)), (''targetAudience'', PStr (p_targetAudience d)),
      (''keyCompetencies'', PList (p_keyCompetencies d)),
      (''estimatedMinutes'', PInt (p_estimatedMinutes d)), (''concepts'', PList (p_concepts d))]
     @ (case p_conceptSequence d of None \<Rightarrow> [] | Some s \<Rightarrow> [(''conceptSequence'', PList s)])"

definition add_knowledge_nodes :: "graph_data \<Rightarrow> digraph \<Rightarrow> digraph" where
  "add_knowledge_nodes graph_data =
     fold (\<lambda>(node_id, node_data).
             add_node node_id
               (AList.update ''type'' (PStr ''KnowledgeNode'')
                  (AList.update ''label'' (PStr (kn_title node_data)) (knowledge_node_dict node_data))))
          (gd_knowledge_nodes graph_data)"

definition add_concept_nodes :: "graph_data \<Rightarrow> digraph \<Rightarrow> digraph" where
  "add_concept_nodes graph_data =
     fold (\<lambda>(concept_id, concept_data).
             add_node concept_id
               (AList.update ''type'' (PStr ''Concept'')
                  (AList.update ''label'' (PStr (c_name concept_data)) (concept_dict concept_data))))
          (gd_concepts graph_data)"

definition add_path_nodes :: "graph_data \<Rightarrow> digraph \<Rightarrow> digraph" where
  "add_path_nodes graph_data =
     fold (\<lambda>(path_id, path_data).
             add_node path_id
               (AList.update ''type'' (PStr ''LearningPath'')
                  (AList.update ''label'' (PStr (p_name path_data)) (learning_path_dict path_data))))
          (gd_learning_paths graph_data)"

definition add_relationship_edge :: "relationship \<Rightarrow> digraph \<Rightarrow> digraph" where
  "add_relationship_edge rel G =
     (if has_node G (r_source rel) \<and> has_node G (r_target rel)
      then add_edge (r_source rel) (r_target rel)
             [(''relation'', PStr (r_type rel)), (''strength'', PInt (r_strength rel)),
              (''justification'', PStr (r_justification rel))] G
      else G)"

text \<open>
  \<^verbatim>\<open>for i, node_id in enumerate(seq): if node_id in G: G.add_edge(owner, node_id,
  relation=kind, sequence=i+1)\<close>, shared by the CONTAINS and the INCLUDES loop.
\<close>

definition add_sequence_edges :: "string \<Rightarrow> string \<Rightarrow> string list \<Rightarrow> digraph \<Rightarrow> digraph" where
  "add_sequence_edges kind owner seq =
     fold (\<lambda>(i, member) G.
             if has_node G member
             then add_edge owner member
                    [(''relation'', PStr kind), (''sequence'', PInt (int i + 1))] G
             else G)
          (enumerate 0 seq)"

definition add_contains_edges :: "graph_data \<Rightarrow> digraph \<Rightarrow> digraph" where
  "add_contains_edges graph_data =
     fold (\<lambda>(concept_id, concept_data) G.
             case c_sequence concept_data of
               None \<Rightarrow> G
             | Some seq \<Rightarrow> add_sequence_edges ''CONTAINS'' concept_id seq G)
          (gd_concepts graph_data)"

definition add_includes_edges :: "graph_data \<Rightarrow> digraph \<Rightarrow> digraph" where
  "add_includes_edges graph_data =
     fold (\<lambda>(path_id, path_data) G.
             case p_conceptSequence path_data of
               None \<Rightarrow> G
             | Some seq \<Rightarrow> add_sequence_edges ''INCLUDES'' path_id seq G)
          (gd_learning_paths graph_data)"

definition build_networkx_graph :: "graph_data \<Rightarrow> digraph" where
  "build_networkx_graph graph_data =
     add_includes_edges graph_data
       (add_contains_edges graph_data
          (fold add_relationship_edge (gd_relationships graph_data)
             (add_path_nodes graph_data
                (add_concept_nodes graph_data
                   (add_knowledge_nodes graph_data DiGraph)))))"

text \<open>
  \<^verbatim>\<open>G.edges[u, v].get(key)\<close> for an edge that may be missing, and the identifiers of all
  entities of a parsed model.
\<close>

definition edge_attr :: "digraph \<Rightarrow> string \<Rightarrow> string \<Rightarrow> string \<Rightarrow> pyval option" where
  "edge_attr G u v key = (case map_of (g_adj G) (u, v) of None \<Rightarrow> None | Some d \<Rightarrow> map_of d key)"

text \<open>\<^verbatim>\<open>G.nodes[n].get(key)\<close> for a node of the graph; \<open>None\<close> also when \<open>n\<close> is no node.\<close>

definition node_attr :: "digraph \<Rightarrow> string \<Rightarrow> string \<Rightarrow> pyval option" where
  "node_attr G n key = (case map_of (g_node G) n of None \<Rightarrow> None | Some d \<Rightarrow> map_of d key)"

definition entity_ids :: "graph_data \<Rightarrow> string set" where
  "entity_ids graph_data =
     set (map fst (gd_knowledge_nodes graph_data)) \<union> set (map fst (gd_concepts graph_data)) \<union>
     set (map fst (gd_learning_paths graph_data))"

section \<open>What the groups of a match hold\<close>

text \<open>
  \<open>accepts is w\<close>: the text \<open>w\<close> is in the language of the items \<open>is\<close>. It states what
  the text of a group looks like; the matcher above does not use it.
\<close>

fun accepts :: "item list \<Rightarrow> string \<Rightarrow> bool" where
  "accepts [] w = (w = [])"
| "accepts (Lit l # is) w = (\<exists>v. w = l @ v \<and> accepts is v)"
| "accepts (Star c # is) w = (\<exists>t v. w = t @ v \<and> list_all (in_cls c) t \<and> accepts is v)"
| "accepts (Plus c # is) w = (\<exists>t v. w = t @ v \<and> t \<noteq> [] \<and> list_all (in_cls c) t \<and> accepts is v)"

fun groups :: "piece list \<Rightarrow> item list list" where
  "groups [] = []"
| "groups (Item i # ps) = groups ps"
| "groups (Group g # ps) = g # groups ps"

text \<open>A non-empty string of decimal digits, the text of a \<^verbatim>\<open>\d+\<close> group.\<close>

definition digits :: "string \<Rightarrow> bool" where
  "digits s \<longleftrightarrow> s \<noteq> [] \<and> list_all (in_cls Digit) s"

section \<open>Notions used to state the properties\<close>

text \<open>
  The pairs (member, declared sequence number) of the structural statements for one owner
  (a concept or a learning path), in statement order, read off the matches of the
  CONTAINS or INCLUDES pattern.
\<close>

definition declared_members :: "string list list \<Rightarrow> string \<Rightarrow> (string \<times> int) list" where
  "declared_members ms owner =
     concat (map (\<lambda>caps. case caps of
                    [ow, member, sequence] \<Rightarrow>
                      (if ow = owner
                       then (case py_int sequence of Inr sq \<Rightarrow> [(member, sq)] | Inl e \<Rightarrow> [])
                       else [])
                  | _ \<Rightarrow> []) ms)"

text \<open>An identifier made of a prefix and decimal digits, such as \<^verbatim>\<open>N12\<close> or \<^verbatim>\<open>CONCEPT-3\<close>.\<close>

definition id_with :: "string \<Rightarrow> string \<Rightarrow> bool" where
  "id_with pre x \<longleftrightarrow> prefix pre x \<and> digits (drop (length pre) x)"

text \<open>
  What the patterns guarantee about a parsed model: dictionary keys are unique,
  knowledge nodes, concepts and learning paths have identifiers of their own shape,
  a sequence of a concept lists knowledge node identifiers, a sequence of a path
  lists concept identifiers, and a relationship joins two knowledge nodes or two concepts.
\<close>

definition wf_model :: "graph_data \<Rightarrow> bool" where
  "wf_model m \<longleftrightarrow>
     distinct (map fst (gd_knowledge_nodes m)) \<and>
     distinct (map fst (gd_concepts m)) \<and>
     distinct (map fst (gd_learning_paths m)) \<and>
     list_all (\<lambda>(k, d). id_with ''N'' k) (gd_knowledge_nodes m) \<and>
     list_all (\<lambda>(k, d). id_with ''CONCEPT-'' k \<and>
                 (case c_sequence d of None \<Rightarrow> True | Some seq \<Rightarrow> list_all (id_with ''N'') seq))
              (gd_concepts m) \<and>
     list_all (\<lambda>(k, d). id_with ''PATH-'' k \<and>
                 (case p_conceptSequence d of None \<Rightarrow> True
                  | Some seq \<Rightarrow> list_all (id_with ''CONCEPT-'') seq))
              (gd_learning_paths m) \<and>
     list_all (\<lambda>r. (id_with ''N'' (r_source r) \<and> id_with ''N'' (r_target r)) \<or>
                    (id_with ''CONCEPT-'' (r_source r) \<and> id_with ''CONCEPT-'' (r_target r)))
              (gd_relationships m)"


text \<open>No key of the dictionary holds an empty list (so for the auxiliary dictionaries of the
  structural statements).\<close>

definition nonempty_lists :: "(string \<times> 'a list) list \<Rightarrow> bool" where
  "nonempty_lists d \<longleftrightarrow> (\<forall>k xs. map_of d k = Some xs \<longrightarrow> xs \<noteq> [])"

text \<open>
  The texts that the parser hands to \<^verbatim>\<open>int\<close>: \<^verbatim>\<open>estimatedMinutes\<close> of the three creation
  statements, \<^verbatim>\<open>strength\<close> of a relationship and \<^verbatim>\<open>sequence\<close> of the two structural
  statements.
\<close>

definition numeric_fields :: "string \<Rightarrow> string list" where
  "numeric_fields text =
     map (\<lambda>caps. caps ! 4) (finditer knowledge_node_pattern text) @
     map (\<lambda>caps. caps ! 3) (finditer concept_pattern text) @
     map (\<lambda>caps. caps ! 5) (finditer path_pattern text) @
     map (\<lambda>caps. caps ! 3) (finditer node_relationship_pattern text) @
     map (\<lambda>caps. caps ! 2) (finditer concept_node_pattern text) @
     map (\<lambda>caps. caps ! 2) (finditer path_concept_pattern text)"

text \<open>
  The common shape of the CONTAINS and the INCLUDES loop of the builder: for every owner
  that has a sequence, the edges of that sequence.
\<close>

definition add_owner_edges ::
  "string \<Rightarrow> ('d \<Rightarrow> string list option) \<Rightarrow> (string \<times> 'd) list \<Rightarrow> digraph \<Rightarrow> digraph" where
  "add_owner_edges kind sel =
     fold (\<lambda>(owner, data) G.
             case sel data of None \<Rightarrow> G | Some seq \<Rightarrow> add_sequence_edges kind owner seq G)"

text \<open>A digit string that \<^verbatim>\<open>int\<close> converts: it is within the limit on the number of digits.\<close>

definition short :: "string \<Rightarrow> bool" where
  "short s \<longleftrightarrow> length s \<le> int_max_str_digits"

section \<open>Scanning a script statement by statement\<close>

text \<open>
  Every pattern starts with literal text. \<open>may_start l u\<close>: the text \<open>u\<close>, followed by
  anything, may start with \<open>l\<close> (no character of \<open>u\<close> differs from \<open>l\<close>);
  \<open>starts l u\<close>: this holds at some position of \<open>u\<close>. A search for the pattern passes
  over a text with no such position.
\<close>

fun may_start :: "string \<Rightarrow> string \<Rightarrow> bool" where
  "may_start [] u = True"
| "may_start (x # xs) [] = True"
| "may_start (x # xs) (y # ys) = (x = y \<and> may_start xs ys)"

fun starts :: "string \<Rightarrow> string \<Rightarrow> bool" where
  "starts l [] = False"
| "starts l (y # ys) = (may_start l (y # ys) \<or> starts l ys)"

section \<open>Example statements and scripts\<close>

text \<open>
  Statements in the recognized shapes, and scripts made of them, on which the properties
  below are instantiated.
\<close>

definition stmt_node_N1 :: string where
  \<open>stmt_node_N1 = ''CREATE (n:KnowledgeNode {id: "N1", title: "T", description: "d", difficulty: "Beginner", estimatedMinutes: 5, source_lesson: "", source_title: ""});''\<close>

definition stmt_node_N2 :: string where
  \<open>stmt_node_N2 = ''CREATE (n:KnowledgeNode {id: "N2", title: "T", description: "d", difficulty: "Beginner", estimatedMinutes: 5, source_lesson: "", source_title: ""});''\<close>

definition stmt_node_N3 :: string where
  \<open>stmt_node_N3 = ''CREATE (n:KnowledgeNode {id: "N3", title: "T", description: "d", difficulty: "Beginner", estimatedMinutes: 5, source_lesson: "", source_title: ""});''\<close>

definition stmt_concept_1 :: string where
  \<open>stmt_concept_1 = ''CREATE (c:Concept {id: "CONCEPT-1", name: "A", description: "d", estimatedMinutes: 30});''\<close>

definition stmt_contains_N3_2 :: string where
  \<open>stmt_contains_N3_2 = ''MATCH (c:Concept {id: "CONCEPT-1"}), (n:KnowledgeNode {id: "N3"}) CREATE (c)-[:CONTAINS {sequence: 2}]->(n);''\<close>

definition stmt_contains_N1_0 :: string where
  \<open>stmt_contains_N1_0 = ''MATCH (c:Concept {id: "CONCEPT-1"}), (n:KnowledgeNode {id: "N1"}) CREATE (c)-[:CONTAINS {sequence: 0}]->(n);''\<close>

definition stmt_contains_N2_1 :: string where
  \<open>stmt_contains_N2_1 = ''MATCH (c:Concept {id: "CONCEPT-1"}), (n:KnowledgeNode {id: "N2"}) CREATE (c)-[:CONTAINS {sequence: 1}]->(n);''\<close>

definition stmt_contains_N1_5 :: string where
  \<open>stmt_contains_N1_5 = ''MATCH (c:Concept {id: "CONCEPT-1"}), (n:KnowledgeNode {id: "N1"}) CREATE (c)-[:CONTAINS {sequence: 5}]->(n);''\<close>

definition stmt_leads_to_N1_N3 :: string where
  \<open>stmt_leads_to_N1_N3 = ''MATCH (a:KnowledgeNode {id: "N1"}), (b:KnowledgeNode {id: "N3"}) CREATE (a)-[:LEADS_TO {strength: 3, justification: "j"}]->(b);''\<close>

definition stmt_requires_N1_N3 :: string where
  \<open>stmt_requires_N1_N3 = ''MATCH (a:KnowledgeNode {id: "N1"}), (b:KnowledgeNode {id: "N3"}) CREATE (a)-[:REQUIRES {strength: 5, justification: "k"}]->(b);''\<close>

definition stmt_requires_N1_N9 :: string where
  \<open>stmt_requires_N1_N9 = ''MATCH (a:KnowledgeNode {id: "N1"}), (b:KnowledgeNode {id: "N9"}) CREATE (a)-[:REQUIRES {strength: 4, justification: "k"}]->(b);''\<close>

definition stmt_unrecognized :: string where
  \<open>stmt_unrecognized = ''CREATE (x:Topic {id: 1});''\<close>

text \<open>The records that the parser makes of these statements.\<close>

definition example_node :: "string \<Rightarrow> knowledge_node" where
  "example_node n =
     \<lparr>kn_id = n, kn_title = ''T'', kn_description = ''d'', kn_difficulty = ''Beginner'',
      kn_estimatedMinutes = 5, kn_source_lesson = [], kn_source_title = []\<rparr>"

definition example_concept :: "string list \<Rightarrow> string list option \<Rightarrow> concept" where
  "example_concept members seq =
     \<lparr>c_id = ''CONCEPT-1'', c_name = ''A'', c_description = ''d'', c_estimatedMinutes = 30,
      c_nodes = members, c_sequence = seq\<rparr>"

definition example_relationship :: "string \<Rightarrow> string \<Rightarrow> int \<Rightarrow> string \<Rightarrow> relationship" where
  "example_relationship target kind strength justification =
     \<lparr>r_source = ''N1'', r_target = target, r_type = kind, r_strength = strength,
      r_justification = justification\<rparr>"

text \<open>A concept and no CONTAINS statement.\<close>

definition script_concept_only :: string where
  "script_concept_only = concat [stmt_concept_1]"

definition model_concept_only :: graph_data where
  "model_concept_only =
     \<lparr>gd_knowledge_nodes = [],
      gd_concepts = [(''CONCEPT-1'', example_concept [] None)],
      gd_learning_paths = [], gd_relationships = []\<rparr>"

text \<open>
  The concept \<^verbatim>\<open>CONCEPT-1\<close>, three knowledge nodes, and CONTAINS statements for \<^verbatim>\<open>N3\<close>
  (sequence 2), \<^verbatim>\<open>N1\<close> (sequence 0) and \<^verbatim>\<open>N2\<close> (sequence 1), in this order.
\<close>

definition script_sequence :: string where
  "script_sequence =
     concat [stmt_concept_1, stmt_node_N1, stmt_node_N2, stmt_node_N3,
             stmt_contains_N3_2, stmt_contains_N1_0, stmt_contains_N2_1]"

definition model_sequence :: graph_data where
  "model_sequence =
     \<lparr>gd_knowledge_nodes =
        [(''N1'', example_node ''N1''), (''N2'', example_node ''N2''), (''N3'', example_node ''N3'')],
      gd_concepts =
        [(''CONCEPT-1'', example_concept [''N3'', ''N1'', ''N2''] (Some [''N1'', ''N2'', ''N3'']))],
      gd_learning_paths = [], gd_relationships = []\<rparr>"

text \<open>Two CONTAINS statements for the same concept and node, with sequence 0 and 5.\<close>

definition script_repeated :: string where
  "script_repeated =
     concat [stmt_concept_1, stmt_node_N1, stmt_node_N2,
             stmt_contains_N1_0, stmt_contains_N2_1, stmt_contains_N1_5]"

definition model_repeated :: graph_data where
  "model_repeated =
     \<lparr>gd_knowledge_nodes = [(''N1'', example_node ''N1''), (''N2'', example_node ''N2'')],
      gd_concepts =
        [(''CONCEPT-1'', example_concept [''N1'', ''N2''] (Some [''N1'', ''N2'', ''N1'']))],
      gd_learning_paths = [], gd_relationships = []\<rparr>"



text \<open>Two knowledge nodes, a relationship between them and one to the unknown \<^verbatim>\<open>N9\<close>.\<close>

definition script_dangling :: string where
  "script_dangling =
     concat [stmt_node_N1, stmt_node_N3, stmt_leads_to_N1_N3, stmt_requires_N1_N9]"

definition model_dangling :: graph_data where
  "model_dangling =
     \<lparr>gd_knowledge_nodes = [(''N1'', example_node ''N1''), (''N3'', example_node ''N3'')],
      gd_concepts = [], gd_learning_paths = [],
      gd_relationships =
        [example_relationship ''N3'' ''LEADS_TO'' 3 ''j'',
         example_relationship ''N9'' ''REQUIRES'' 4 ''k'']\<rparr>"

text \<open>Two relationships of different kinds between the same two knowledge nodes.\<close>

definition script_two_kinds :: string where
  "script_two_kinds =
     concat [stmt_node_N1, stmt_node_N3, stmt_leads_to_N1_N3, stmt_requires_N1_N3]"

definition model_two_kinds :: graph_data where
  "model_two_kinds =
     \<lparr>gd_knowledge_nodes = [(''N1'', example_node ''N1''), (''N3'', example_node ''N3'')],
      gd_concepts = [], gd_learning_paths = [],
      gd_relationships =
        [example_relationship ''N3'' ''LEADS_TO'' 3 ''j'',
         example_relationship ''N3'' ''REQUIRES'' 5 ''k'']\<rparr>"

text \<open>A script of one statement, which is in none of the recognized shapes.\<close>

definition script_unrecognized :: string where
  "script_unrecognized = concat [stmt_unrecognized]"

definition model_unrecognized :: graph_data where
  "model_unrecognized =
     \<lparr>gd_knowledge_nodes = [], gd_concepts = [], gd_learning_paths = [], gd_relationships = []\<rparr>"

text \<open>A CONTAINS statement with the given text as its sequence number.\<close>

definition contains_before_sequence :: string where
  \<open>contains_before_sequence =
     ''MATCH (c:Concept {id: "CONCEPT-1"}), (n:KnowledgeNode {id: "N1"}) CREATE (c)-[:CONTAINS {sequence: ''\<close>

definition contains_after_sequence :: string where
  "contains_after_sequence = ''}]->(n);''"

definition contains_with_sequence :: "string \<Rightarrow> string" where
  "contains_with_sequence ds = contains_before_sequence @ ds @ contains_after_sequence"

text \<open>
  A graph with two knowledge nodes and a concept, a REQUIRES edge between the knowledge
  nodes and a CONTAINS edge from the concept.
\<close>

definition example_graph :: digraph where
  "example_graph =
     add_edge ''CONCEPT-1'' ''N1'' [(''relation'', PStr ''CONTAINS''), (''sequence'', PInt 1)]
       (add_edge ''N1'' ''N2'' [(''relation'', PStr ''REQUIRES'')]
          (add_node ''CONCEPT-1'' [(''type'', PStr ''Concept'')]
             (add_node ''N2'' [(''type'', PStr ''KnowledgeNode'')]
                (add_node ''N1'' [(''type'', PStr ''KnowledgeNode'')] DiGraph))))"

section \<open>Lemmas about the selector\<close>

lemma for_range_add: "for_range (j + k) f x = for_range k f (for_range j f x)"
  by (induction j arbitrary: x) simp_all

lemma for_range_infl:
  assumes "\<And>x. x \<subseteq> f x"
  shows "(x::'a set) \<subseteq> for_range k f x"
proof (induction k arbitrary: x)
  case 0
  show ?case by simp
next
  case (Suc k)
  have "x \<subseteq> f x" by (rule assms)
  also have "f x \<subseteq> for_range k f (f x)" by (rule Suc.IH)
  finally show ?case by simp
qed

lemma for_range_mono:
  assumes "\<And>x y. x \<subseteq> y \<Longrightarrow> f x \<subseteq> f y"
  shows "(x::'a set) \<subseteq> y \<Longrightarrow> for_range k f x \<subseteq> for_range k f y"
proof (induction k arbitrary: x y)
  case 0
  then show ?case by simp
next
  case (Suc k)
  from Suc.prems have "f x \<subseteq> f y" by (rule assms)
  then show ?case using Suc.IH by simp
qed

lemma expand_pass_infl: "X \<subseteq> expand_pass step G s X"
  by (auto simp: expand_pass_def)

lemma expand_pass_mono: "X \<subseteq> Y \<Longrightarrow> expand_pass step G s X \<subseteq> expand_pass step G s Y"
  unfolding expand_pass_def by (intro Un_mono UN_mono) auto

lemma seed_neighbors_mono:
  assumes "j \<le> k"
  shows "seed_neighbors G j s \<subseteq> seed_neighbors G k s"
proof -
  obtain d where k: "k = j + d" using assms by (auto simp: le_iff_add)
  let ?F = "expand_pass successors G s" and ?P = "expand_pass predecessors G s"
  have "for_range j ?F {} \<subseteq> for_range k ?F {}"
    unfolding k for_range_add by (rule for_range_infl) (rule expand_pass_infl)
  then have "for_range j ?P (for_range j ?F {}) \<subseteq> for_range j ?P (for_range k ?F {})"
    by (rule for_range_mono[rotated]) (rule expand_pass_mono)
  also have "\<dots> \<subseteq> for_range k ?P (for_range k ?F {})"
    unfolding k for_range_add by (rule for_range_infl) (rule expand_pass_infl)
  finally show ?thesis by (simp add: seed_neighbors_def)
qed

lemma nodes_to_include_mono:
  assumes "r1 \<le> r2"
  shows "nodes_to_include G ft ids r1 \<subseteq> nodes_to_include G ft ids r2"
proof -
  have "seed_neighbors G (nat r1) s \<subseteq> seed_neighbors G (nat r2) s" for s
    using assms by (intro seed_neighbors_mono) simp
  then show ?thesis
    using assms unfolding nodes_to_include_def Let_def
    by (auto split: option.splits)
qed

lemma node_ids_add_node [simp]: "node_ids (add_node n a G) = insert n (node_ids G)"
  by (simp add: node_ids_def add_node_def AList.dom_update)

lemma g_adj_add_node [simp]: "g_adj (add_node n a G) = g_adj G"
  by (simp add: add_node_def)

lemma has_node_iff: "has_node G n \<longleftrightarrow> n \<in> node_ids G"
  by (simp add: has_node_def node_ids_def map_of_eq_None_iff)

lemma node_ids_adj_update [simp]: "node_ids (G\<lparr>g_adj := x\<rparr>) = node_ids G"
  by (simp add: node_ids_def)

lemma node_ids_add_edge [simp]: "node_ids (add_edge u v a G) = insert u (insert v (node_ids G))"
  by (auto simp: add_edge_def Let_def has_node_iff)

lemma edge_keys_add_edge [simp]: "edge_keys (add_edge u v a G) = insert (u, v) (edge_keys G)"
  by (simp add: add_edge_def Let_def edge_keys_def AList.dom_update)

lemma node_ids_fold_add_node:
  "node_ids (fold (\<lambda>(n, d). add_node n d) xs S) = node_ids S \<union> fst ` set xs"
  by (induction xs arbitrary: S) (auto simp: case_prod_beta)

lemma edge_keys_fold_add_node:
  "edge_keys (fold (\<lambda>(n, d). add_node n d) xs S) = edge_keys S"
  by (induction xs arbitrary: S) (auto simp: case_prod_beta edge_keys_def)

lemma node_ids_fold_edges:
  "node_ids (fold (\<lambda>((u, v), data) S. if keep u v data then add_edge u v data S else S) es S) =
     node_ids S \<union> (\<Union>e \<in> set es. if keep (fst (fst e)) (snd (fst e)) (snd e) then {fst (fst e), snd (fst e)} else {})"
  by (induction es arbitrary: S) (auto simp: case_prod_beta)

lemma edge_keys_fold_edges:
  "edge_keys (fold (\<lambda>((u, v), data) S. if keep u v data then add_edge u v data S else S) es S) =
     edge_keys S \<union> fst ` {e \<in> set es. keep (fst (fst e)) (snd (fst e)) (snd e)}"
  by (induction es arbitrary: S) (auto simp: case_prod_beta)

lemma successors_in_nodes:
  "wf_digraph G \<Longrightarrow> set (successors G n) \<subseteq> node_ids G"
  by (auto simp: wf_digraph_def successors_def list_all_iff has_node_iff)

lemma predecessors_in_nodes:
  "wf_digraph G \<Longrightarrow> set (predecessors G n) \<subseteq> node_ids G"
  by (auto simp: wf_digraph_def predecessors_def list_all_iff has_node_iff)

lemma for_range_invariant:
  assumes "\<And>x. P x \<Longrightarrow> P (f x)" and "P x"
  shows "P (for_range k f x)"
  using assms(2) by (induction k arbitrary: x) (simp_all add: assms(1))

lemma expand_pass_in_nodes:
  assumes "\<And>n. set (step G n) \<subseteq> node_ids G" and "X \<subseteq> node_ids G"
  shows "expand_pass step G s X \<subseteq> node_ids G"
  using assms by (auto simp: expand_pass_def split: if_splits)

lemma seed_neighbors_in_nodes:
  assumes "wf_digraph G"
  shows "seed_neighbors G k s \<subseteq> node_ids G"
  unfolding seed_neighbors_def
  by (intro for_range_invariant[where P = "\<lambda>X. X \<subseteq> node_ids G"] expand_pass_in_nodes
        successors_in_nodes predecessors_in_nodes assms) simp_all

lemma nodes_to_include_in_nodes:
  assumes "wf_digraph G"
  shows "nodes_to_include G ft ids k \<subseteq> node_ids G"
  using seed_neighbors_in_nodes[OF assms]
  unfolding nodes_to_include_def Let_def
  by (auto simp: has_node_iff node_ids_def split: option.splits)

lemma node_ids_select_subgraph:
  assumes "wf_digraph G"
  shows "node_ids (select_subgraph G ft ids fr k) =
           (if truthy ft \<or> truthy ids \<or> truthy fr then nodes_to_include G ft ids k else node_ids G)"
proof (cases "truthy ft \<or> truthy ids \<or> truthy fr")
  case False
  then show ?thesis by (simp add: select_subgraph_def)
next
  case True
  let ?N = "nodes_to_include G ft ids k"
  have sub: "?N \<subseteq> node_ids G" by (rule nodes_to_include_in_nodes[OF assms])
  have 1: "fst ` set (filter (\<lambda>(n, d). n \<in> ?N) (g_node G)) = ?N"
    using sub by (force simp: node_ids_def)
  have *: "(\<lambda>((u, v), data) S. if u \<in> N \<and> v \<in> N then
                      (if \<not> truthy fr \<or> get_in data ''relation'' fr
                       then add_edge u v data S else S) else S)
        = (\<lambda>((u, v), data) S. if u \<in> N \<and> v \<in> N \<and> (\<not> truthy fr \<or> get_in data ''relation'' fr)
              then add_edge u v data S else S)" for N
    by (auto simp: fun_eq_iff)
  let ?S1 = "fold (\<lambda>(n, d). add_node n d) (filter (\<lambda>(n, d). n \<in> ?N) (g_node G)) DiGraph"
  have S1: "node_ids ?S1 = ?N"
    unfolding node_ids_fold_add_node 1 by (simp add: node_ids_def DiGraph_def)
  define keep where "keep = (\<lambda>u v data. u \<in> ?N \<and> v \<in> ?N \<and> (\<not> truthy fr \<or> get_in data ''relation'' fr))"
  have sel: "select_subgraph G ft ids fr k =
      fold (\<lambda>((u, v), data) S. if keep u v data then add_edge u v data S else S) (g_adj G) ?S1"
    using True unfolding select_subgraph_def Let_def * keep_def by simp
  have "node_ids (select_subgraph G ft ids fr k) = ?N"
    unfolding sel node_ids_fold_edges S1 by (auto simp: keep_def split: if_splits)
  then show ?thesis using True by simp
qed

lemma edge_keys_select_subgraph:
  "edge_keys (select_subgraph G ft ids fr k) =
     (if truthy ft \<or> truthy ids \<or> truthy fr
      then fst ` {e \<in> set (g_adj G). fst (fst e) \<in> nodes_to_include G ft ids k \<and>
                     snd (fst e) \<in> nodes_to_include G ft ids k \<and>
                     (\<not> truthy fr \<or> get_in (snd e) ''relation'' fr)}
      else edge_keys G)"
proof -
  have *: "(\<lambda>((u, v), data) S. if u \<in> N \<and> v \<in> N then
                      (if \<not> truthy fr \<or> get_in data ''relation'' fr
                       then add_edge u v data S else S) else S)
        = (\<lambda>((u, v), data) S. if u \<in> N \<and> v \<in> N \<and> (\<not> truthy fr \<or> get_in data ''relation'' fr)
              then add_edge u v data S else S)" for N
    by (auto simp: fun_eq_iff)
  show ?thesis
    by (simp add: select_subgraph_def Let_def * edge_keys_fold_edges edge_keys_fold_add_node)
       (simp add: edge_keys_def DiGraph_def)
qed


lemma g_adj_add_edge:
  "g_adj (add_edge u v a G) =
     AList.update (u, v) (dict_update (case map_of (g_adj G) (u, v) of None \<Rightarrow> [] | Some d \<Rightarrow> d) a) (g_adj G)"
  by (simp add: add_edge_def Let_def)

lemma map_of_adj_add_edge:
  "map_of (g_adj (add_edge u v a G)) k =
     (if k = (u, v) then Some (dict_update (case map_of (g_adj G) (u, v) of None \<Rightarrow> [] | Some d \<Rightarrow> d) a)
      else map_of (g_adj G) k)"
  by (simp add: g_adj_add_edge AList.update_conv')

lemma has_node_add_node [simp]: "has_node (add_node n a G) x \<longleftrightarrow> x = n \<or> has_node G x"
  by (auto simp: has_node_iff)

lemma has_node_add_edge [simp]: "has_node (add_edge u v a G) x \<longleftrightarrow> x = u \<or> x = v \<or> has_node G x"
  by (auto simp: has_node_iff)

lemma node_ids_add_edge_present:
  "has_node G u \<Longrightarrow> has_node G v \<Longrightarrow> node_ids (add_edge u v a G) = node_ids G"
  by (auto simp: has_node_iff)

lemma distinct_adj_add_node [simp]:
  "distinct (map fst (g_adj (add_node n a G))) = distinct (map fst (g_adj G))"
  by simp

lemma distinct_adj_add_edge:
  "distinct (map fst (g_adj G)) \<Longrightarrow> distinct (map fst (g_adj (add_edge u v a G)))"
  by (simp add: g_adj_add_edge AList.distinct_update)

lemma distinct_node_add_node:
  "distinct (map fst (g_node G)) \<Longrightarrow> distinct (map fst (g_node (add_node n a G)))"
  by (simp add: add_node_def AList.distinct_update)

lemma g_node_adj_update [simp]: "g_node (G\<lparr>g_adj := x\<rparr>) = g_node G"
  by simp

lemma distinct_node_add_edge:
  "distinct (map fst (g_node G)) \<Longrightarrow> distinct (map fst (g_node (add_edge u v a G)))"
  by (simp add: add_edge_def Let_def distinct_node_add_node)

lemma wf_digraph_iff:
  "wf_digraph G \<longleftrightarrow> distinct (map fst (g_node G)) \<and> distinct (map fst (g_adj G)) \<and>
     (\<forall>(u, v) \<in> edge_keys G. u \<in> node_ids G \<and> v \<in> node_ids G)"
  by (auto simp: wf_digraph_def list_all_iff has_node_iff edge_keys_def)

lemma wf_DiGraph: "wf_digraph DiGraph"
  by (simp add: wf_digraph_def DiGraph_def)

lemma wf_add_node: "wf_digraph G \<Longrightarrow> wf_digraph (add_node n a G)"
  unfolding wf_digraph_iff
  by (auto simp: distinct_node_add_node edge_keys_def)

lemma wf_add_edge: "wf_digraph G \<Longrightarrow> wf_digraph (add_edge u v a G)"
  unfolding wf_digraph_iff
  by (auto simp: distinct_node_add_edge distinct_adj_add_edge)

lemma get_in_singleton: "get_in d key (Some [t]) \<longleftrightarrow> map_of d key = Some (PStr t)"
  by (auto simp: get_in_def split: option.splits pyval.splits)

lemma nodes_to_include_types_only:
  "truthy ft \<Longrightarrow> nodes_to_include G ft None k =
     set (map fst (filter (\<lambda>(n, d). get_in d ''type'' ft) (g_node G)))"
  by (simp add: nodes_to_include_def)

lemma kept_edge_iff:
  assumes wf: "wf_digraph G" and e: "((u, v), data) \<in> set (g_adj G)"
  shows "(u, v) \<in> edge_keys (select_subgraph G ft ids fr k) \<longleftrightarrow>
           u \<in> node_ids (select_subgraph G ft ids fr k) \<and>
           v \<in> node_ids (select_subgraph G ft ids fr k) \<and>
           (\<not> truthy fr \<or> get_in data ''relation'' fr)"
proof -
  have uniq: "data' = data" if "((u, v), data') \<in> set (g_adj G)" for data'
    using wf e that by (auto simp: wf_digraph_def dest: eq_key_imp_eq_value)
  have ends: "u \<in> node_ids G" "v \<in> node_ids G"
    using wf e by (auto simp: wf_digraph_def list_all_iff has_node_iff)
  show ?thesis
  proof (cases "truthy ft \<or> truthy ids \<or> truthy fr")
    case False
    then have "select_subgraph G ft ids fr k = G"
      by (simp add: select_subgraph_def)
    moreover have "(u, v) \<in> edge_keys G"
      using e by (force simp: edge_keys_def)
    ultimately show ?thesis
      using ends False by simp
  next
    case True
    let ?N = "nodes_to_include G ft ids k"
    let ?P = "\<lambda>e. fst (fst e) \<in> ?N \<and> snd (fst e) \<in> ?N \<and>
                     (\<not> truthy fr \<or> get_in (snd e) ''relation'' fr)"
    have nodes: "node_ids (select_subgraph G ft ids fr k) = ?N"
      using True by (simp add: node_ids_select_subgraph[OF wf])
    have edges: "edge_keys (select_subgraph G ft ids fr k) = fst ` {e \<in> set (g_adj G). ?P e}"
      using True by (simp add: edge_keys_select_subgraph)
    have "(u, v) \<in> fst ` {e \<in> set (g_adj G). ?P e} \<longleftrightarrow> ?P ((u, v), data)"
    proof
      assume "(u, v) \<in> fst ` {e \<in> set (g_adj G). ?P e}"
      then obtain e' where e': "e' \<in> set (g_adj G)" "?P e'" "fst e' = (u, v)"
        by auto
      have "e' = ((u, v), snd e')"
        using e'(3) by (simp add: prod_eq_iff)
      with e'(1) have "e' = ((u, v), data)"
        using uniq[of "snd e'"] by simp
      with e' show "?P ((u, v), data)" by simp
    next
      assume "?P ((u, v), data)"
      with e have "((u, v), data) \<in> {e \<in> set (g_adj G). ?P e}" by simp
      then show "(u, v) \<in> fst ` {e \<in> set (g_adj G). ?P e}"
        by (rule rev_image_eqI) simp
    qed
    then show ?thesis
      unfolding nodes edges by simp
  qed
qed


section \<open>Soundness of the matcher\<close>

lemma strip_prefix_Some: "strip_prefix l s = Some r \<Longrightarrow> s = l @ r"
  by (induction l s rule: strip_prefix.induct) (auto split: if_splits)

lemma rep_splits_sound:
  "(t, r) \<in> set (rep_splits c s) \<Longrightarrow> s = t @ r \<and> list_all (in_cls c) t"
  by (induction s arbitrary: t r) (auto split: if_splits)

lemma match_items_sound:
  "(w, r) \<in> set (match_items is s) \<Longrightarrow> s = w @ r \<and> accepts is w"
proof (induction "is" arbitrary: s w r)
  case Nil
  then show ?case by simp
next
  case (Cons i "is")
  show ?case
  proof (cases i)
    case (Lit l)
    with Cons.prems obtain r0 w0 where
      "strip_prefix l s = Some r0" "(w0, r) \<in> set (match_items is r0)" "w = l @ w0"
      by (cases "strip_prefix l s") auto
    with Cons.IH[of w0 r r0] Lit show ?thesis
      by (auto dest: strip_prefix_Some)
  next
    case (Star c)
    with Cons.prems obtain t r0 w0 where
      "(t, r0) \<in> set (rep_splits c s)" "(w0, r) \<in> set (match_items is r0)" "w = t @ w0"
      by auto
    with Cons.IH[of w0 r r0] Star show ?thesis
      by (auto dest: rep_splits_sound)
  next
    case (Plus c)
    with Cons.prems obtain t r0 w0 where
      "(t, r0) \<in> set (rep_splits c s)" "t \<noteq> []" "(w0, r) \<in> set (match_items is r0)" "w = t @ w0"
      by auto
    with Cons.IH[of w0 r r0] Plus show ?thesis
      by (auto dest: rep_splits_sound)
  qed
qed

lemma match_pieces_sound:
  "(caps, w, r) \<in> set (match_pieces ps s) \<Longrightarrow> s = w @ r \<and> list_all2 accepts (groups ps) caps"
proof (induction ps arbitrary: s caps w r)
  case Nil
  then show ?case by simp
next
  case (Cons p ps)
  show ?case
  proof (cases p)
    case (Item i)
    with Cons.prems obtain t r0 w0 where
      "(t, r0) \<in> set (match_items [i] s)" "(caps, w0, r) \<in> set (match_pieces ps r0)" "w = t @ w0"
      by auto
    with Cons.IH[of caps w0 r r0] Item show ?thesis
      by (auto dest: match_items_sound)
  next
    case (Group g)
    with Cons.prems obtain t r0 caps0 w0 where
      "(t, r0) \<in> set (match_items g s)" "(caps0, w0, r) \<in> set (match_pieces ps r0)"
      "w = t @ w0" "caps = t # caps0"
      by auto
    with Cons.IH[of caps0 w0 r r0] Group show ?thesis
      by (auto dest: match_items_sound)
  qed
qed

lemma match_at_sound:
  "match_at p s = Some (caps, w) \<Longrightarrow> list_all2 accepts (groups p) caps \<and> prefix w s"
proof -
  assume "match_at p s = Some (caps, w)"
  then obtain r ms where "match_pieces p s = (caps, w, r) # ms"
    by (auto simp: match_at_def split: list.splits)
  then have "(caps, w, r) \<in> set (match_pieces p s)"
    by simp
  from match_pieces_sound[OF this] show ?thesis
    by simp
qed

lemma scan_sound:
  "caps \<in> set (scan p k s) \<Longrightarrow> list_all2 accepts (groups p) caps"
proof (induction p k s rule: scan.induct)
  case (1 p k)
  then show ?case
    by (cases "match_at p []") (auto dest: match_at_sound)
next
  case (2 p c s)
  then show ?case
    by (cases "match_at p (c # s)") (auto dest: match_at_sound)
next
  case (3 p k c s)
  then show ?case by simp
qed

lemma finditer_sound:
  "caps \<in> set (finditer p s) \<Longrightarrow> list_all2 accepts (groups p) caps"
  unfolding finditer_def by (rule scan_sound)

lemma accepts_Plus [simp]: "accepts [Plus c] w \<longleftrightarrow> w \<noteq> [] \<and> list_all (in_cls c) w"
  by auto

lemma accepts_Star [simp]: "accepts [Star c] w \<longleftrightarrow> list_all (in_cls c) w"
  by auto

lemma accepts_Lit_Plus [simp]:
  "accepts [Lit l, Plus c] w \<longleftrightarrow> (\<exists>d. w = l @ d \<and> d \<noteq> [] \<and> list_all (in_cls c) d)"
  by auto

lemma knowledge_node_match_shape:
  assumes "caps \<in> set (finditer knowledge_node_pattern text)"
  shows "\<exists>n title description difficulty minutes source_lesson source_title.
           caps = [''N'' @ n, title, description, difficulty, minutes, source_lesson, source_title]
           \<and> digits n \<and> digits minutes"
  using finditer_sound[OF assms]
  by (auto simp: knowledge_node_pattern_def list_all2_Cons1 digits_def)

lemma concept_match_shape:
  assumes "caps \<in> set (finditer concept_pattern text)"
  shows "\<exists>n name description minutes.
           caps = [''CONCEPT-'' @ n, name, description, minutes] \<and> digits n \<and> digits minutes"
  using finditer_sound[OF assms]
  by (auto simp: concept_pattern_def list_all2_Cons1 digits_def)

lemma path_match_shape:
  assumes "caps \<in> set (finditer path_pattern text)"
  shows "\<exists>n name description target_audience key_competencies minutes.
           caps = [''PATH-'' @ n, name, description, target_audience, key_competencies, minutes]
           \<and> digits n \<and> digits minutes"
  using finditer_sound[OF assms]
  by (auto simp: path_pattern_def list_all2_Cons1 digits_def)

lemma node_relationship_match_shape:
  assumes "caps \<in> set (finditer node_relationship_pattern text)"
  shows "\<exists>a b rel_type strength justification.
           caps = [''N'' @ a, ''N'' @ b, rel_type, strength, justification]
           \<and> digits a \<and> digits b \<and> digits strength"
  using finditer_sound[OF assms]
  by (auto simp: node_relationship_pattern_def list_all2_Cons1 digits_def)

lemma concept_node_match_shape:
  assumes "caps \<in> set (finditer concept_node_pattern text)"
  shows "\<exists>c n sequence.
           caps = [''CONCEPT-'' @ c, ''N'' @ n, sequence] \<and> digits c \<and> digits n \<and> digits sequence"
  using finditer_sound[OF assms]
  by (auto simp: concept_node_pattern_def list_all2_Cons1 digits_def)

lemma path_concept_match_shape:
  assumes "caps \<in> set (finditer path_concept_pattern text)"
  shows "\<exists>p c sequence.
           caps = [''PATH-'' @ p, ''CONCEPT-'' @ c, sequence] \<and> digits p \<and> digits c \<and> digits sequence"
  using finditer_sound[OF assms]
  by (auto simp: path_concept_pattern_def list_all2_Cons1 digits_def)

lemma prereq_match_shape:
  assumes "caps \<in> set (finditer prereq_pattern text)"
  shows "\<exists>a b. caps = [''CONCEPT-'' @ a, ''CONCEPT-'' @ b] \<and> digits a \<and> digits b"
  using finditer_sound[OF assms]
  by (auto simp: prereq_pattern_def list_all2_Cons1 digits_def)

lemma py_int_digits:
  "digits s \<Longrightarrow> py_int s = (if length s > int_max_str_digits then Inl ValueError
                               else Inr (fold (\<lambda>c n. 10 * n + digit_value c) s 0))"
  by (simp add: py_int_def digits_def)

section \<open>The loops of the parser\<close>

lemma bind_Inr_iff: "bind r k = Inr y \<longleftrightarrow> (\<exists>x. r = Inr x \<and> k x = Inr y)"
  by (cases r) (simp_all add: bind_def)

lemma try_fold_Cons_Inr:
  "try_fold body (x # xs) s = Inr s' \<longleftrightarrow> (\<exists>s1. body x s = Inr s1 \<and> try_fold body xs s1 = Inr s')"
  by (cases "body x s") simp_all

declare try_fold.simps(2) [simp del]

lemma try_fold_append_Inr:
  "try_fold body (xs @ ys) s = Inr s' \<longleftrightarrow>
     (\<exists>s1. try_fold body xs s = Inr s1 \<and> try_fold body ys s1 = Inr s')"
  by (induction xs arbitrary: s) (auto simp: try_fold_Cons_Inr)

lemma add_concept_node_Inr:
  assumes "add_concept_node caps (cn, cs) = Inr (cn', cs')"
  obtains c n sq k where "caps = [c, n, sq]" "py_int sq = Inr k"
    "cn' = AList.update c (get_list cn c @ [(n, k)]) cn"
    "cs' = (case map_of cs c of
              None \<Rightarrow> cs
            | Some d \<Rightarrow> if n \<notin> set (c_nodes d)
                        then AList.update c (d\<lparr>c_nodes := c_nodes d @ [n]\<rparr>) cs else cs)"
  using assms
  by (cases "(caps, (cn, cs))" rule: add_concept_node.cases) (auto simp: bind_Inr_iff)

lemma declared_members_Nil [simp]: "declared_members [] c = []"
  by (simp add: declared_members_def)

lemma declared_members_Cons:
  "declared_members (caps # ms) c =
     (case caps of
        [ow, member, sequence] \<Rightarrow>
          (if ow = c then (case py_int sequence of Inr sq \<Rightarrow> [(member, sq)] | Inl e \<Rightarrow> []) else [])
      | _ \<Rightarrow> []) @ declared_members ms c"
  by (simp add: declared_members_def)

lemma get_list_update:
  "get_list (AList.update k v d) k' = (if k' = k then v else get_list d k')"
  by (simp add: get_list_def AList.update_conv')

lemma concept_nodes_loop_members:
  "try_fold add_concept_node ms (cn, cs) = Inr (cn', cs') \<Longrightarrow>
     get_list cn' c = get_list cn c @ declared_members ms c"
proof (induction ms arbitrary: cn cs)
  case Nil
  then show ?case by simp
next
  case (Cons caps ms)
  from Cons.prems obtain cn1 cs1 where
    step: "add_concept_node caps (cn, cs) = Inr (cn1, cs1)" and
    rest: "try_fold add_concept_node ms (cn1, cs1) = Inr (cn', cs')"
    by (auto simp: try_fold_Cons_Inr)
  from step show ?case
  proof (rule add_concept_node_Inr)
    fix c0 n sq k
    assume "caps = [c0, n, sq]" "py_int sq = Inr k"
      "cn1 = AList.update c0 (get_list cn c0 @ [(n, k)]) cn"
    then show ?thesis
      using Cons.IH[OF rest] by (simp add: declared_members_Cons get_list_update)
  qed
qed

lemma keys_update_present:
  "map_of al k = Some v0 \<Longrightarrow> map fst (AList.update k v al) = map fst al"
  by (simp add: AList.update_keys weak_map_of_SomeI domIff image_iff)
     (metis fst_conv image_iff map_of_SomeD)

lemma concept_nodes_loop_keys:
  "try_fold add_concept_node ms (cn, cs) = Inr (cn', cs') \<Longrightarrow> map fst cs' = map fst cs"
proof (induction ms arbitrary: cn cs)
  case Nil
  then show ?case by simp
next
  case (Cons caps ms)
  from Cons.prems obtain cn1 cs1 where
    step: "add_concept_node caps (cn, cs) = Inr (cn1, cs1)" and
    rest: "try_fold add_concept_node ms (cn1, cs1) = Inr (cn', cs')"
    by (auto simp: try_fold_Cons_Inr)
  from step have "map fst cs1 = map fst cs"
    by (rule add_concept_node_Inr) (auto simp: keys_update_present split: option.splits)
  with Cons.IH[OF rest] show ?case by simp
qed

text \<open>Only the \<^verbatim>\<open>nodes\<close> list of a concept changes in the CONTAINS loop, and only for a
  concept that has a statement.\<close>

lemma concept_nodes_loop_concepts:
  "try_fold add_concept_node ms (cn, cs) = Inr (cn', cs') \<Longrightarrow> map_of cs' c = Some d' \<Longrightarrow>
     \<exists>d. map_of cs c = Some d \<and> c_sequence d' = c_sequence d \<and> c_id d' = c_id d \<and>
         (declared_members ms c = [] \<longrightarrow> d' = d)"
proof (induction ms arbitrary: cn cs)
  case Nil
  then show ?case by simp
next
  case (Cons caps ms)
  from Cons.prems(1) obtain cn1 cs1 where
    step: "add_concept_node caps (cn, cs) = Inr (cn1, cs1)" and
    rest: "try_fold add_concept_node ms (cn1, cs1) = Inr (cn', cs')"
    by (auto simp: try_fold_Cons_Inr)
  from Cons.IH[OF rest Cons.prems(2)] obtain d1 where
    d1: "map_of cs1 c = Some d1" "c_sequence d' = c_sequence d1" "c_id d' = c_id d1"
      "declared_members ms c = [] \<longrightarrow> d' = d1"
    by blast
  from step show ?case
  proof (rule add_concept_node_Inr)
    fix c0 n sq k
    assume caps: "caps = [c0, n, sq]" and k: "py_int sq = Inr k"
      and cs1: "cs1 = (case map_of cs c0 of None \<Rightarrow> cs
            | Some d \<Rightarrow> if n \<notin> set (c_nodes d)
                        then AList.update c0 (d\<lparr>c_nodes := c_nodes d @ [n]\<rparr>) cs else cs)"
    show ?thesis
    proof (cases "c0 = c")
      case True
      then have "declared_members (caps # ms) c \<noteq> []"
        using caps k by (simp add: declared_members_Cons)
      moreover have "\<exists>d. map_of cs c = Some d \<and> c_sequence d1 = c_sequence d \<and> c_id d1 = c_id d"
        using d1(1) True unfolding cs1
        by (auto simp: AList.update_conv' split: option.splits if_splits)
      ultimately show ?thesis using d1 by auto
    next
      case False
      then have "map_of cs1 c = map_of cs c"
        unfolding cs1 by (auto simp: AList.update_conv' split: option.splits)
      moreover have "declared_members (caps # ms) c = declared_members ms c"
        using False caps by (simp add: declared_members_Cons)
      ultimately show ?thesis using d1 by (metis (no_types))
    qed
  qed
qed

lemma concept_nodes_loop_dict:
  "try_fold add_concept_node ms (cn, cs) = Inr (cn', cs') \<Longrightarrow>
     distinct (map fst cn) \<Longrightarrow> nonempty_lists cn \<Longrightarrow>
     distinct (map fst cn') \<and> nonempty_lists cn'"
proof (induction ms arbitrary: cn cs)
  case Nil
  then show ?case by simp
next
  case (Cons caps ms)
  from Cons.prems(1) obtain cn1 cs1 where
    step: "add_concept_node caps (cn, cs) = Inr (cn1, cs1)" and
    rest: "try_fold add_concept_node ms (cn1, cs1) = Inr (cn', cs')"
    by (auto simp: try_fold_Cons_Inr)
  have "distinct (map fst cn1) \<and> nonempty_lists cn1"
  proof (rule add_concept_node_Inr[OF step])
    fix c n sq k
    assume "cn1 = AList.update c (get_list cn c @ [(n, k)]) cn"
    then show ?thesis
      using Cons.prems(2,3)
      by (auto simp: AList.distinct_update nonempty_lists_def AList.update_conv')
  qed
  then show ?case using Cons.IH[OF rest] by simp
qed

lemma map_of_nonempty_lists:
  "nonempty_lists d \<Longrightarrow> map_of d k = (if get_list d k = [] then None else Some (get_list d k))"
  by (auto simp: nonempty_lists_def get_list_def split: option.splits)

lemma set_sequence_fold:
  "distinct (map fst cn) \<Longrightarrow>
     map fst (fold set_sequence cn cs) = map fst cs \<and>
     map_of (fold set_sequence cn cs) c =
       (case map_of cs c of
          None \<Rightarrow> None
        | Some d \<Rightarrow> (case map_of cn c of
                       None \<Rightarrow> Some d
                     | Some nodes \<Rightarrow> Some (d\<lparr>c_sequence := Some (map fst (sort_key snd nodes))\<rparr>)))"
proof (induction cn arbitrary: cs)
  case Nil
  then show ?case by (simp split: option.splits)
next
  case (Cons x cn)
  obtain k nodes where x: "x = (k, nodes)" by (cases x)
  let ?cs1 = "set_sequence x cs"
  have keys: "map fst ?cs1 = map fst cs"
    by (auto simp: x set_sequence_def keys_update_present split: option.splits)
  have k_notin: "map_of cn k = None"
    using Cons.prems by (simp add: x map_of_eq_None_iff)
  have look: "map_of ?cs1 c =
      (case map_of cs c of None \<Rightarrow> None
       | Some d \<Rightarrow> if c = k then Some (d\<lparr>c_sequence := Some (map fst (sort_key snd nodes))\<rparr>) else Some d)"
    by (auto simp: x set_sequence_def AList.update_conv' split: option.splits)
  from Cons.prems have "distinct (map fst cn)" by simp
  from Cons.IH[OF this, of ?cs1] show ?case
    using keys look k_notin by (auto simp: x split: option.splits)
qed

lemma add_path_concept_Inr:
  assumes "add_path_concept caps (cn, cs) = Inr (cn', cs')"
  obtains c n sq k where "caps = [c, n, sq]" "py_int sq = Inr k"
    "cn' = AList.update c (get_list cn c @ [(n, k)]) cn"
    "cs' = (case map_of cs c of
              None \<Rightarrow> cs
            | Some d \<Rightarrow> if n \<notin> set (p_concepts d)
                        then AList.update c (d\<lparr>p_concepts := p_concepts d @ [n]\<rparr>) cs else cs)"
  using assms
  by (cases "(caps, (cn, cs))" rule: add_path_concept.cases) (auto simp: bind_Inr_iff)

lemma path_concepts_loop_members:
  "try_fold add_path_concept ms (cn, cs) = Inr (cn', cs') \<Longrightarrow>
     get_list cn' c = get_list cn c @ declared_members ms c"
proof (induction ms arbitrary: cn cs)
  case Nil
  then show ?case by simp
next
  case (Cons caps ms)
  from Cons.prems obtain cn1 cs1 where
    step: "add_path_concept caps (cn, cs) = Inr (cn1, cs1)" and
    rest: "try_fold add_path_concept ms (cn1, cs1) = Inr (cn', cs')"
    by (auto simp: try_fold_Cons_Inr)
  from step show ?case
  proof (rule add_path_concept_Inr)
    fix c0 n sq k
    assume "caps = [c0, n, sq]" "py_int sq = Inr k"
      "cn1 = AList.update c0 (get_list cn c0 @ [(n, k)]) cn"
    then show ?thesis
      using Cons.IH[OF rest] by (simp add: declared_members_Cons get_list_update)
  qed
qed

lemma path_concepts_loop_keys:
  "try_fold add_path_concept ms (cn, cs) = Inr (cn', cs') \<Longrightarrow> map fst cs' = map fst cs"
proof (induction ms arbitrary: cn cs)
  case Nil
  then show ?case by simp
next
  case (Cons caps ms)
  from Cons.prems obtain cn1 cs1 where
    step: "add_path_concept caps (cn, cs) = Inr (cn1, cs1)" and
    rest: "try_fold add_path_concept ms (cn1, cs1) = Inr (cn', cs')"
    by (auto simp: try_fold_Cons_Inr)
  from step have "map fst cs1 = map fst cs"
    by (rule add_path_concept_Inr) (auto simp: keys_update_present split: option.splits)
  with Cons.IH[OF rest] show ?case by simp
qed

text \<open>Only the \<^verbatim>\<open>concepts\<close> list of a path changes in the INCLUDES loop, and only for a
  path that has a statement.\<close>

lemma path_concepts_loop_concepts:
  "try_fold add_path_concept ms (cn, cs) = Inr (cn', cs') \<Longrightarrow> map_of cs' c = Some d' \<Longrightarrow>
     \<exists>d. map_of cs c = Some d \<and> p_conceptSequence d' = p_conceptSequence d \<and> p_id d' = p_id d \<and>
         (declared_members ms c = [] \<longrightarrow> d' = d)"
proof (induction ms arbitrary: cn cs)
  case Nil
  then show ?case by simp
next
  case (Cons caps ms)
  from Cons.prems(1) obtain cn1 cs1 where
    step: "add_path_concept caps (cn, cs) = Inr (cn1, cs1)" and
    rest: "try_fold add_path_concept ms (cn1, cs1) = Inr (cn', cs')"
    by (auto simp: try_fold_Cons_Inr)
  from Cons.IH[OF rest Cons.prems(2)] obtain d1 where
    d1: "map_of cs1 c = Some d1" "p_conceptSequence d' = p_conceptSequence d1" "p_id d' = p_id d1"
      "declared_members ms c = [] \<longrightarrow> d' = d1"
    by blast
  from step show ?case
  proof (rule add_path_concept_Inr)
    fix c0 n sq k
    assume caps: "caps = [c0, n, sq]" and k: "py_int sq = Inr k"
      and cs1: "cs1 = (case map_of cs c0 of None \<Rightarrow> cs
            | Some d \<Rightarrow> if n \<notin> set (p_concepts d)
                        then AList.update c0 (d\<lparr>p_concepts := p_concepts d @ [n]\<rparr>) cs else cs)"
    show ?thesis
    proof (cases "c0 = c")
      case True
      then have "declared_members (caps # ms) c \<noteq> []"
        using caps k by (simp add: declared_members_Cons)
      moreover have "\<exists>d. map_of cs c = Some d \<and> p_conceptSequence d1 = p_conceptSequence d \<and> p_id d1 = p_id d"
        using d1(1) True unfolding cs1
        by (auto simp: AList.update_conv' split: option.splits if_splits)
      ultimately show ?thesis using d1 by auto
    next
      case False
      then have "map_of cs1 c = map_of cs c"
        unfolding cs1 by (auto simp: AList.update_conv' split: option.splits)
      moreover have "declared_members (caps # ms) c = declared_members ms c"
        using False caps by (simp add: declared_members_Cons)
      ultimately show ?thesis using d1 by (metis (no_types))
    qed
  qed
qed

lemma path_concepts_loop_dict:
  "try_fold add_path_concept ms (cn, cs) = Inr (cn', cs') \<Longrightarrow>
     distinct (map fst cn) \<Longrightarrow> nonempty_lists cn \<Longrightarrow>
     distinct (map fst cn') \<and> nonempty_lists cn'"
proof (induction ms arbitrary: cn cs)
  case Nil
  then show ?case by simp
next
  case (Cons caps ms)
  from Cons.prems(1) obtain cn1 cs1 where
    step: "add_path_concept caps (cn, cs) = Inr (cn1, cs1)" and
    rest: "try_fold add_path_concept ms (cn1, cs1) = Inr (cn', cs')"
    by (auto simp: try_fold_Cons_Inr)
  have "distinct (map fst cn1) \<and> nonempty_lists cn1"
  proof (rule add_path_concept_Inr[OF step])
    fix c n sq k
    assume "cn1 = AList.update c (get_list cn c @ [(n, k)]) cn"
    then show ?thesis
      using Cons.prems(2,3)
      by (auto simp: AList.distinct_update nonempty_lists_def AList.update_conv')
  qed
  then show ?case using Cons.IH[OF rest] by simp
qed

lemma set_conceptSequence_fold:
  "distinct (map fst cn) \<Longrightarrow>
     map fst (fold set_conceptSequence cn cs) = map fst cs \<and>
     map_of (fold set_conceptSequence cn cs) c =
       (case map_of cs c of
          None \<Rightarrow> None
        | Some d \<Rightarrow> (case map_of cn c of
                       None \<Rightarrow> Some d
                     | Some nodes \<Rightarrow> Some (d\<lparr>p_conceptSequence := Some (map fst (sort_key snd nodes))\<rparr>)))"
proof (induction cn arbitrary: cs)
  case Nil
  then show ?case by (simp split: option.splits)
next
  case (Cons x cn)
  obtain k nodes where x: "x = (k, nodes)" by (cases x)
  let ?cs1 = "set_conceptSequence x cs"
  have keys: "map fst ?cs1 = map fst cs"
    by (auto simp: x set_conceptSequence_def keys_update_present split: option.splits)
  have k_notin: "map_of cn k = None"
    using Cons.prems by (simp add: x map_of_eq_None_iff)
  have look: "map_of ?cs1 c =
      (case map_of cs c of None \<Rightarrow> None
       | Some d \<Rightarrow> if c = k then Some (d\<lparr>p_conceptSequence := Some (map fst (sort_key snd nodes))\<rparr>) else Some d)"
    by (auto simp: x set_conceptSequence_def AList.update_conv' split: option.splits)
  from Cons.prems have "distinct (map fst cn)" by simp
  from Cons.IH[OF this, of ?cs1] show ?case
    using keys look k_notin by (auto simp: x split: option.splits)
qed

section \<open>The creation loops\<close>

lemma add_knowledge_node_Inr:
  assumes "add_knowledge_node caps kns = Inr kns'"
  obtains node_id title description difficulty minutes source_lesson source_title m where
    "caps = [node_id, title, description, difficulty, minutes, source_lesson, source_title]"
    "py_int minutes = Inr m"
    "kns' = AList.update node_id
              \<lparr>kn_id = node_id, kn_title = title, kn_description = description,
               kn_difficulty = difficulty, kn_estimatedMinutes = m,
               kn_source_lesson = source_lesson, kn_source_title = source_title\<rparr> kns"
  using assms
  by (cases "(caps, kns)" rule: add_knowledge_node.cases) (auto simp: bind_Inr_iff)

lemma add_concept_Inr:
  assumes "add_concept caps cs = Inr cs'"
  obtains concept_id name description minutes m where
    "caps = [concept_id, name, description, minutes]"
    "py_int minutes = Inr m"
    "cs' = AList.update concept_id
              \<lparr>c_id = concept_id, c_name = name, c_description = description,
               c_estimatedMinutes = m, c_nodes = [], c_sequence = None\<rparr> cs"
  using assms
  by (cases "(caps, cs)" rule: add_concept.cases) (auto simp: bind_Inr_iff)

lemma add_learning_path_Inr:
  assumes "add_learning_path caps ps = Inr ps'"
  obtains path_id name description target_audience key_competencies minutes m where
    "caps = [path_id, name, description, target_audience, key_competencies, minutes]"
    "py_int minutes = Inr m"
    "ps' = AList.update path_id
              \<lparr>p_id = path_id, p_name = name, p_description = description,
               p_targetAudience = target_audience,
               p_keyCompetencies =
                 (if key_competencies \<noteq> [] then split_on CHR '';'' key_competencies else []),
               p_estimatedMinutes = m, p_concepts = [], p_conceptSequence = None\<rparr> ps"
  using assms
  by (cases "(caps, ps)" rule: add_learning_path.cases) (auto simp: bind_Inr_iff)

lemma knowledge_nodes_loop:
  "try_fold add_knowledge_node ms kns = Inr kns' \<Longrightarrow>
     (distinct (map fst kns) \<longrightarrow> distinct (map fst kns')) \<and>
     fst ` set kns' = fst ` set kns \<union> hd ` set ms"
proof (induction ms arbitrary: kns)
  case Nil
  then show ?case by simp
next
  case (Cons caps ms)
  from Cons.prems obtain kns1 where
    step: "add_knowledge_node caps kns = Inr kns1" and
    rest: "try_fold add_knowledge_node ms kns1 = Inr kns'"
    by (auto simp: try_fold_Cons_Inr)
  have "(distinct (map fst kns) \<longrightarrow> distinct (map fst kns1)) \<and>
        fst ` set kns1 = insert (hd caps) (fst ` set kns)"
    by (rule add_knowledge_node_Inr[OF step]) (auto simp: AList.distinct_update AList.dom_update)
  with Cons.IH[OF rest] show ?case by auto
qed

lemma concepts_loop:
  "try_fold add_concept ms cs = Inr cs' \<Longrightarrow>
     (distinct (map fst cs) \<longrightarrow> distinct (map fst cs')) \<and>
     fst ` set cs' = fst ` set cs \<union> hd ` set ms \<and>
     (\<forall>c d. map_of cs' c = Some d \<longrightarrow>
        map_of cs c = Some d \<or> (c_nodes d = [] \<and> c_sequence d = None))"
proof (induction ms arbitrary: cs)
  case Nil
  then show ?case by simp
next
  case (Cons caps ms)
  from Cons.prems obtain cs1 where
    step: "add_concept caps cs = Inr cs1" and
    rest: "try_fold add_concept ms cs1 = Inr cs'"
    by (auto simp: try_fold_Cons_Inr)
  have 1: "(distinct (map fst cs) \<longrightarrow> distinct (map fst cs1)) \<and>
        fst ` set cs1 = insert (hd caps) (fst ` set cs) \<and>
        (\<forall>c d. map_of cs1 c = Some d \<longrightarrow>
           map_of cs c = Some d \<or> (c_nodes d = [] \<and> c_sequence d = None))"
    by (rule add_concept_Inr[OF step])
       (auto simp: AList.distinct_update AList.dom_update AList.update_conv' split: if_splits)
  from Cons.IH[OF rest] 1 show ?case
    by (auto; metis)
qed

lemma learning_paths_loop:
  "try_fold add_learning_path ms ps = Inr ps' \<Longrightarrow>
     (distinct (map fst ps) \<longrightarrow> distinct (map fst ps')) \<and>
     fst ` set ps' = fst ` set ps \<union> hd ` set ms \<and>
     (\<forall>c d. map_of ps' c = Some d \<longrightarrow>
        map_of ps c = Some d \<or> (p_concepts d = [] \<and> p_conceptSequence d = None))"
proof (induction ms arbitrary: ps)
  case Nil
  then show ?case by simp
next
  case (Cons caps ms)
  from Cons.prems obtain ps1 where
    step: "add_learning_path caps ps = Inr ps1" and
    rest: "try_fold add_learning_path ms ps1 = Inr ps'"
    by (auto simp: try_fold_Cons_Inr)
  have 1: "(distinct (map fst ps) \<longrightarrow> distinct (map fst ps1)) \<and>
        fst ` set ps1 = insert (hd caps) (fst ` set ps) \<and>
        (\<forall>c d. map_of ps1 c = Some d \<longrightarrow>
           map_of ps c = Some d \<or> (p_concepts d = [] \<and> p_conceptSequence d = None))"
    by (rule add_learning_path_Inr[OF step])
       (auto simp: AList.distinct_update AList.dom_update AList.update_conv' split: if_splits)
  from Cons.IH[OF rest] 1 show ?case
    by (auto; metis)
qed

section \<open>The parser as a whole\<close>

lemma parse_cypher_file_Inr:
  assumes "parse_cypher_file text = Inr m"
  obtains kns cs0 ps0 rs0 cn cs1 pc ps1 where
    "try_fold add_knowledge_node (finditer knowledge_node_pattern text) [] = Inr kns"
    "try_fold add_concept (finditer concept_pattern text) [] = Inr cs0"
    "try_fold add_learning_path (finditer path_pattern text) [] = Inr ps0"
    "try_fold add_node_relationship (finditer node_relationship_pattern text) [] = Inr rs0"
    "try_fold add_concept_node (finditer concept_node_pattern text) ([], cs0) = Inr (cn, cs1)"
    "try_fold add_path_concept (finditer path_concept_pattern text) ([], ps0) = Inr (pc, ps1)"
    "try_fold add_prereq (finditer prereq_pattern text) rs0 = Inr (gd_relationships m)"
    "gd_knowledge_nodes m = kns"
    "gd_concepts m = fold set_sequence cn cs1"
    "gd_learning_paths m = fold set_conceptSequence pc ps1"
  using assms unfolding parse_cypher_file_def
  by (auto simp: bind_Inr_iff Let_def split: prod.splits)

text \<open>The \<^verbatim>\<open>sequence\<close> and \<^verbatim>\<open>nodes\<close> fields of a parsed concept.\<close>

lemma nonempty_lists_Nil [simp]: "nonempty_lists []"
  by (simp add: nonempty_lists_def)

lemma parsed_concept_fields:
  assumes parse: "parse_cypher_file text = Inr m"
    and look: "map_of (gd_concepts m) c = Some d"
  shows "c_sequence d =
           (if declared_members (finditer concept_node_pattern text) c = [] then None
            else Some (map fst (sort_key snd (declared_members (finditer concept_node_pattern text) c))))"
    and "declared_members (finditer concept_node_pattern text) c = [] \<Longrightarrow> c_nodes d = []"
proof -
  let ?ms = "finditer concept_node_pattern text"
  from parse obtain cs0 cn cs1 where
    cs0: "try_fold add_concept (finditer concept_pattern text) [] = Inr cs0" and
    loop: "try_fold add_concept_node ?ms ([], cs0) = Inr (cn, cs1)" and
    m: "gd_concepts m = fold set_sequence cn cs1"
    by (rule parse_cypher_file_Inr)
  have cn: "distinct (map fst cn)" "nonempty_lists cn"
    using concept_nodes_loop_dict[OF loop] by simp_all
  have members: "get_list cn c = declared_members ?ms c"
    using concept_nodes_loop_members[OF loop, of c] by (simp add: get_list_def)
  have cn_c: "map_of cn c = (if declared_members ?ms c = [] then None else Some (declared_members ?ms c))"
    using map_of_nonempty_lists[OF cn(2), of c] members by simp
  from set_sequence_fold[OF cn(1), of cs1 c] look m
  obtain d1 where d1: "map_of cs1 c = Some d1"
    and d: "d = (case map_of cn c of None \<Rightarrow> d1
                 | Some nodes \<Rightarrow> d1\<lparr>c_sequence := Some (map fst (sort_key snd nodes))\<rparr>)"
    by (auto split: option.splits)
  from concept_nodes_loop_concepts[OF loop d1] obtain d0 where
    d0: "map_of cs0 c = Some d0" "c_sequence d1 = c_sequence d0"
      "declared_members ?ms c = [] \<longrightarrow> d1 = d0"
    by blast
  from concepts_loop[OF cs0] d0(1) have init: "c_nodes d0 = []" "c_sequence d0 = None"
    by auto
  show "c_sequence d =
           (if declared_members ?ms c = [] then None
            else Some (map fst (sort_key snd (declared_members ?ms c))))"
    using d cn_c d0 init by simp
  show "c_nodes d = []" if "declared_members ?ms c = []"
    using that d cn_c d0 init by simp
qed

lemma parsed_dict_keys:
  assumes parse: "parse_cypher_file text = Inr m"
  shows "distinct (map fst (gd_knowledge_nodes m))"
    and "distinct (map fst (gd_concepts m))"
    and "distinct (map fst (gd_learning_paths m))"
    and "fst ` set (gd_knowledge_nodes m) = hd ` set (finditer knowledge_node_pattern text)"
    and "fst ` set (gd_concepts m) = hd ` set (finditer concept_pattern text)"
    and "fst ` set (gd_learning_paths m) = hd ` set (finditer path_pattern text)"
proof -
  from parse obtain kns cs0 ps0 cn cs1 pc ps1 where
    kns: "try_fold add_knowledge_node (finditer knowledge_node_pattern text) [] = Inr kns" and
    cs0: "try_fold add_concept (finditer concept_pattern text) [] = Inr cs0" and
    ps0: "try_fold add_learning_path (finditer path_pattern text) [] = Inr ps0" and
    cloop: "try_fold add_concept_node (finditer concept_node_pattern text) ([], cs0) = Inr (cn, cs1)" and
    ploop: "try_fold add_path_concept (finditer path_concept_pattern text) ([], ps0) = Inr (pc, ps1)" and
    m: "gd_knowledge_nodes m = kns" "gd_concepts m = fold set_sequence cn cs1"
       "gd_learning_paths m = fold set_conceptSequence pc ps1"
    by (rule parse_cypher_file_Inr)
  have cn: "distinct (map fst cn)"
    using concept_nodes_loop_dict[OF cloop] by simp
  have pc: "distinct (map fst pc)"
    using path_concepts_loop_dict[OF ploop] by simp
  have ck: "map fst (gd_concepts m) = map fst cs0"
    using set_sequence_fold[OF cn, of cs1] concept_nodes_loop_keys[OF cloop] m by simp
  have pk: "map fst (gd_learning_paths m) = map fst ps0"
    using set_conceptSequence_fold[OF pc, of ps1] path_concepts_loop_keys[OF ploop] m by simp
  show "distinct (map fst (gd_knowledge_nodes m))"
    using knowledge_nodes_loop[OF kns] m by simp
  show "distinct (map fst (gd_concepts m))"
    using concepts_loop[OF cs0] ck by simp
  show "distinct (map fst (gd_learning_paths m))"
    using learning_paths_loop[OF ps0] pk by simp
  show "fst ` set (gd_knowledge_nodes m) = hd ` set (finditer knowledge_node_pattern text)"
    using knowledge_nodes_loop[OF kns] m by simp
  have "fst ` set (gd_concepts m) = set (map fst (gd_concepts m))" by simp
  also have "\<dots> = fst ` set cs0" unfolding ck by simp
  finally show "fst ` set (gd_concepts m) = hd ` set (finditer concept_pattern text)"
    using concepts_loop[OF cs0] by simp
  have "fst ` set (gd_learning_paths m) = set (map fst (gd_learning_paths m))" by simp
  also have "\<dots> = fst ` set ps0" unfolding pk by simp
  finally show "fst ` set (gd_learning_paths m) = hd ` set (finditer path_pattern text)"
    using learning_paths_loop[OF ps0] by simp
qed

lemma parsed_path_fields:
  assumes parse: "parse_cypher_file text = Inr m"
    and look: "map_of (gd_learning_paths m) c = Some d"
  shows "p_conceptSequence d =
           (if declared_members (finditer path_concept_pattern text) c = [] then None
            else Some (map fst (sort_key snd (declared_members (finditer path_concept_pattern text) c))))"
proof -
  let ?ms = "finditer path_concept_pattern text"
  from parse obtain ps0 pc ps1 where
    ps0: "try_fold add_learning_path (finditer path_pattern text) [] = Inr ps0" and
    loop: "try_fold add_path_concept ?ms ([], ps0) = Inr (pc, ps1)" and
    m: "gd_learning_paths m = fold set_conceptSequence pc ps1"
    by (rule parse_cypher_file_Inr)
  have pc: "distinct (map fst pc)" "nonempty_lists pc"
    using path_concepts_loop_dict[OF loop] by simp_all
  have members: "get_list pc c = declared_members ?ms c"
    using path_concepts_loop_members[OF loop, of c] by (simp add: get_list_def)
  have pc_c: "map_of pc c = (if declared_members ?ms c = [] then None else Some (declared_members ?ms c))"
    using map_of_nonempty_lists[OF pc(2), of c] members by simp
  from set_conceptSequence_fold[OF pc(1), of ps1 c] look m
  obtain d1 where d1: "map_of ps1 c = Some d1"
    and d: "d = (case map_of pc c of None \<Rightarrow> d1
                 | Some nodes \<Rightarrow> d1\<lparr>p_conceptSequence := Some (map fst (sort_key snd nodes))\<rparr>)"
    by (auto split: option.splits)
  from path_concepts_loop_concepts[OF loop d1] obtain d0 where
    d0: "map_of ps0 c = Some d0" "p_conceptSequence d1 = p_conceptSequence d0"
    by blast
  from learning_paths_loop[OF ps0] d0(1) have init: "p_conceptSequence d0 = None"
    by auto
  show ?thesis
    using d pc_c d0 init by simp
qed

lemma declared_members_from_match:
  "(n, k) \<in> set (declared_members ms c) \<Longrightarrow> \<exists>sq. [c, n, sq] \<in> set ms"
proof (induction ms)
  case Nil
  then show ?case by simp
next
  case (Cons caps ms)
  define first where "first = (case caps of
        [ow, member, sequence] \<Rightarrow>
          (if ow = c then (case py_int sequence of Inr sq \<Rightarrow> [(member, sq)] | Inl e \<Rightarrow> []) else [])
      | _ \<Rightarrow> [])"
  have split: "declared_members (caps # ms) c = first @ declared_members ms c"
    unfolding first_def by (rule declared_members_Cons)
  show ?case
  proof (cases "(n, k) \<in> set first")
    case True
    then have "first \<noteq> []" by auto
    then obtain ow member sequence where caps: "caps = [ow, member, sequence]"
      unfolding first_def by (simp split: list.splits)
    have "ow = c \<and> member = n"
      using True unfolding first_def caps
      by (cases "ow = c"; cases "py_int sequence") simp_all
    then have "ow = c" "member = n" by simp_all
    with caps show ?thesis by auto
  next
    case False
    with Cons.prems split have "(n, k) \<in> set (declared_members ms c)" by simp
    with Cons.IH show ?thesis by auto
  qed
qed

lemma id_with_append: "digits d \<Longrightarrow> id_with pre (pre @ d)"
  by (simp add: id_with_def)

lemma add_node_relationship_Inr:
  assumes "add_node_relationship caps rs = Inr rs'"
  obtains source target rel_type strength justification st where
    "caps = [source, target, rel_type, strength, justification]"
    "py_int strength = Inr st"
    "rs' = rs @ [\<lparr>r_source = source, r_target = target, r_type = rel_type,
                  r_strength = st, r_justification = justification\<rparr>]"
  using assms
  by (cases "(caps, rs)" rule: add_node_relationship.cases) (auto simp: bind_Inr_iff)

lemma add_prereq_Inr:
  assumes "add_prereq caps rs = Inr rs'"
  obtains prereq_id concept_id where
    "caps = [prereq_id, concept_id]"
    "rs' = rs @ [\<lparr>r_source = prereq_id, r_target = concept_id, r_type = ''PREREQUISITE_FOR'',
                  r_strength = 4, r_justification = ''Prerequisite concept''\<rparr>]"
  using assms
  by (cases "(caps, rs)" rule: add_prereq.cases) auto

lemma node_relationships_loop:
  "try_fold add_node_relationship ms rs = Inr rs' \<Longrightarrow>
     map (\<lambda>r. (r_source r, r_target r, r_type r)) rs' =
       map (\<lambda>r. (r_source r, r_target r, r_type r)) rs @
       map (\<lambda>caps. (caps ! 0, caps ! 1, caps ! 2)) ms"
proof (induction ms arbitrary: rs)
  case Nil
  then show ?case by simp
next
  case (Cons caps ms)
  from Cons.prems obtain rs1 where
    step: "add_node_relationship caps rs = Inr rs1" and
    rest: "try_fold add_node_relationship ms rs1 = Inr rs'"
    by (auto simp: try_fold_Cons_Inr)
  have "map (\<lambda>r. (r_source r, r_target r, r_type r)) rs1 =
          map (\<lambda>r. (r_source r, r_target r, r_type r)) rs @ [(caps ! 0, caps ! 1, caps ! 2)]"
    by (rule add_node_relationship_Inr[OF step]) simp
  with Cons.IH[OF rest] show ?case by simp
qed

lemma prereqs_loop:
  "try_fold add_prereq ms rs = Inr rs' \<Longrightarrow>
     map (\<lambda>r. (r_source r, r_target r, r_type r)) rs' =
       map (\<lambda>r. (r_source r, r_target r, r_type r)) rs @
       map (\<lambda>caps. (caps ! 0, caps ! 1, ''PREREQUISITE_FOR'')) ms"
proof (induction ms arbitrary: rs)
  case Nil
  then show ?case by simp
next
  case (Cons caps ms)
  from Cons.prems obtain rs1 where
    step: "add_prereq caps rs = Inr rs1" and
    rest: "try_fold add_prereq ms rs1 = Inr rs'"
    by (auto simp: try_fold_Cons_Inr)
  have "map (\<lambda>r. (r_source r, r_target r, r_type r)) rs1 =
          map (\<lambda>r. (r_source r, r_target r, r_type r)) rs @ [(caps ! 0, caps ! 1, ''PREREQUISITE_FOR'')]"
    by (rule add_prereq_Inr[OF step]) simp
  with Cons.IH[OF rest] show ?case by simp
qed

lemma parsed_relationships:
  assumes "parse_cypher_file text = Inr m"
  shows "map (\<lambda>r. (r_source r, r_target r, r_type r)) (gd_relationships m) =
           map (\<lambda>caps. (caps ! 0, caps ! 1, caps ! 2)) (finditer node_relationship_pattern text) @
           map (\<lambda>caps. (caps ! 0, caps ! 1, ''PREREQUISITE_FOR'')) (finditer prereq_pattern text)"
proof -
  from assms obtain rs0 where
    rs0: "try_fold add_node_relationship (finditer node_relationship_pattern text) [] = Inr rs0" and
    rs1: "try_fold add_prereq (finditer prereq_pattern text) rs0 = Inr (gd_relationships m)"
    by (rule parse_cypher_file_Inr)
  show ?thesis
    using node_relationships_loop[OF rs0] prereqs_loop[OF rs1] by simp
qed

theorem parse_wf_model:
  assumes parse: "parse_cypher_file text = Inr m"
  shows "wf_model m"
proof -
  note keys = parsed_dict_keys[OF parse]
  have kn: "id_with ''N'' k" if "(k, d) \<in> set (gd_knowledge_nodes m)" for k d
  proof -
    from that have "k \<in> fst ` set (gd_knowledge_nodes m)" by force
    then obtain caps where "caps \<in> set (finditer knowledge_node_pattern text)" "k = hd caps"
      unfolding keys(4) by auto
    then show ?thesis
      by (auto dest!: knowledge_node_match_shape simp: id_with_def)
  qed
  have cseq: "list_all (id_with ''N'') seq"
    if "(k, d) \<in> set (gd_concepts m)" "c_sequence d = Some seq" for k d seq
  proof -
    from that(1) keys(2) have "map_of (gd_concepts m) k = Some d" by simp
    from parsed_concept_fields(1)[OF parse this] that(2)
    have seq: "seq = map fst (sort_key snd (declared_members (finditer concept_node_pattern text) k))"
      by (simp split: if_splits)
    show ?thesis
      unfolding seq list_all_iff
      by (auto dest!: declared_members_from_match concept_node_match_shape simp: id_with_def)
  qed
  have ck: "id_with ''CONCEPT-'' k" if "(k, d) \<in> set (gd_concepts m)" for k d
  proof -
    from that have "k \<in> fst ` set (gd_concepts m)" by force
    then obtain caps where "caps \<in> set (finditer concept_pattern text)" "k = hd caps"
      unfolding keys(5) by auto
    then show ?thesis
      by (auto dest!: concept_match_shape simp: id_with_def)
  qed
  have pseq: "list_all (id_with ''CONCEPT-'') seq"
    if "(k, d) \<in> set (gd_learning_paths m)" "p_conceptSequence d = Some seq" for k d seq
  proof -
    from that(1) keys(3) have "map_of (gd_learning_paths m) k = Some d" by simp
    from parsed_path_fields[OF parse this] that(2)
    have seq: "seq = map fst (sort_key snd (declared_members (finditer path_concept_pattern text) k))"
      by (simp split: if_splits)
    show ?thesis
      unfolding seq list_all_iff
      by (auto dest!: declared_members_from_match path_concept_match_shape simp: id_with_def)
  qed
  have pk: "id_with ''PATH-'' k" if "(k, d) \<in> set (gd_learning_paths m)" for k d
  proof -
    from that have "k \<in> fst ` set (gd_learning_paths m)" by force
    then obtain caps where "caps \<in> set (finditer path_pattern text)" "k = hd caps"
      unfolding keys(6) by auto
    then show ?thesis
      by (auto dest!: path_match_shape simp: id_with_def)
  qed
  have rel: "(id_with ''N'' (r_source r) \<and> id_with ''N'' (r_target r)) \<or>
             (id_with ''CONCEPT-'' (r_source r) \<and> id_with ''CONCEPT-'' (r_target r))"
    if "r \<in> set (gd_relationships m)" for r
  proof -
    from that have "(r_source r, r_target r, r_type r) \<in>
        set (map (\<lambda>r. (r_source r, r_target r, r_type r)) (gd_relationships m))"
      by force
    then consider caps where "caps \<in> set (finditer node_relationship_pattern text)"
        "r_source r = caps ! 0" "r_target r = caps ! 1"
      | caps where "caps \<in> set (finditer prereq_pattern text)"
        "r_source r = caps ! 0" "r_target r = caps ! 1"
      unfolding parsed_relationships[OF parse] by auto
    then show ?thesis
    proof cases
      case 1
      then show ?thesis
        by (auto dest!: node_relationship_match_shape simp: id_with_def)
    next
      case 2
      then show ?thesis
        by (auto dest!: prereq_match_shape simp: id_with_def)
    qed
  qed
  show ?thesis
    unfolding wf_model_def list_all_iff
    using keys(1-3) kn cseq[unfolded list_all_iff] ck pseq[unfolded list_all_iff] pk rel
    by (auto split: option.splits)
qed

section \<open>The node loops of the builder\<close>

lemma fold_add_node_nodes:
  "node_ids (fold (\<lambda>(k, d). add_node k (f d)) xs G) = node_ids G \<union> fst ` set xs"
  by (induction xs arbitrary: G) (auto simp: case_prod_beta)

lemma fold_add_node_adj:
  "g_adj (fold (\<lambda>(k, d). add_node k (f d)) xs G) = g_adj G"
  by (induction xs arbitrary: G) (auto simp: case_prod_beta)

lemma node_loops_nodes:
  "node_ids (add_path_nodes m (add_concept_nodes m (add_knowledge_nodes m DiGraph))) = entity_ids m"
  unfolding add_path_nodes_def add_concept_nodes_def add_knowledge_nodes_def fold_add_node_nodes
  by (auto simp: entity_ids_def node_ids_def DiGraph_def)

lemma node_loops_adj:
  "g_adj (add_path_nodes m (add_concept_nodes m (add_knowledge_nodes m DiGraph))) = []"
  unfolding add_path_nodes_def add_concept_nodes_def add_knowledge_nodes_def fold_add_node_adj
  by (simp add: DiGraph_def)

section \<open>Edge attributes\<close>

lemma edge_attr_add_edge:
  "edge_attr (add_edge u v a G) u' v' key =
     (if (u', v') = (u, v)
      then map_of (dict_update (case map_of (g_adj G) (u, v) of None \<Rightarrow> [] | Some d \<Rightarrow> d) a) key
      else edge_attr G u' v' key)"
  by (simp add: edge_attr_def map_of_adj_add_edge)

lemma map_of_dict_update_relationship:
  "map_of (dict_update d [(''relation'', a), (''strength'', b), (''justification'', c)]) key =
     (if key = ''justification'' then Some c
      else if key = ''strength'' then Some b
      else if key = ''relation'' then Some a
      else map_of d key)"
  by (simp add: dict_update_def AList.update_conv')

lemma map_of_dict_update_sequence:
  "map_of (dict_update d [(''relation'', a), (''sequence'', b)]) key =
     (if key = ''sequence'' then Some b
      else if key = ''relation'' then Some a
      else map_of d key)"
  by (simp add: dict_update_def AList.update_conv')

lemma edge_keys_iff: "(u, v) \<in> edge_keys G \<longleftrightarrow> map_of (g_adj G) (u, v) \<noteq> None"
  by (simp add: edge_keys_def map_of_eq_None_iff)

section \<open>The relationship loop\<close>

lemma add_relationship_edge_nodes [simp]:
  "node_ids (add_relationship_edge r G) = node_ids G"
  by (auto simp: add_relationship_edge_def has_node_iff)

lemma rel_fold_nodes [simp]:
  "node_ids (fold add_relationship_edge rs G) = node_ids G"
  by (induction rs arbitrary: G) simp_all

lemma add_relationship_edge_dangling:
  "r_source r \<notin> node_ids G \<or> r_target r \<notin> node_ids G \<Longrightarrow> add_relationship_edge r G = G"
  by (auto simp: add_relationship_edge_def has_node_iff)

lemma rel_fold_dangling:
  assumes "r_source r \<notin> node_ids G \<or> r_target r \<notin> node_ids G"
  shows "fold add_relationship_edge (rs1 @ r # rs2) G = fold add_relationship_edge (rs1 @ rs2) G"
  using assms by (simp add: add_relationship_edge_dangling)

lemma add_relationship_edge_other:
  "(r_source r, r_target r) \<noteq> (s, t) \<Longrightarrow>
     map_of (g_adj (add_relationship_edge r G)) (s, t) = map_of (g_adj G) (s, t)"
  by (auto simp: add_relationship_edge_def map_of_adj_add_edge)

lemma rel_fold_other:
  "\<forall>r \<in> set rs. (r_source r, r_target r) \<noteq> (s, t) \<Longrightarrow>
     map_of (g_adj (fold add_relationship_edge rs G)) (s, t) = map_of (g_adj G) (s, t)"
  by (induction rs arbitrary: G) (simp_all add: add_relationship_edge_other)

lemma rel_fold_last:
  assumes "r_source r \<in> node_ids G" "r_target r \<in> node_ids G"
    and "\<forall>r' \<in> set rs2. (r_source r', r_target r') \<noteq> (r_source r, r_target r)"
  shows "edge_attr (fold add_relationship_edge (rs1 @ r # rs2) G) (r_source r) (r_target r) key =
           (if key = ''justification'' then Some (PStr (r_justification r))
            else if key = ''strength'' then Some (PInt (r_strength r))
            else if key = ''relation'' then Some (PStr (r_type r))
            else edge_attr (fold add_relationship_edge rs1 G) (r_source r) (r_target r) key)"
proof -
  let ?G1 = "fold add_relationship_edge rs1 G"
  have "has_node ?G1 (r_source r)" "has_node ?G1 (r_target r)"
    using assms(1,2) by (simp_all add: has_node_iff)
  then have "edge_attr (add_relationship_edge r ?G1) (r_source r) (r_target r) key =
           (if key = ''justification'' then Some (PStr (r_justification r))
            else if key = ''strength'' then Some (PInt (r_strength r))
            else if key = ''relation'' then Some (PStr (r_type r))
            else edge_attr ?G1 (r_source r) (r_target r) key)"
    by (simp add: add_relationship_edge_def edge_attr_add_edge map_of_dict_update_relationship)
       (simp add: edge_attr_def split: option.splits)
  moreover have "edge_attr (fold add_relationship_edge rs2 (add_relationship_edge r ?G1))
        (r_source r) (r_target r) key = edge_attr (add_relationship_edge r ?G1) (r_source r) (r_target r) key"
    using rel_fold_other[OF assms(3)] by (simp add: edge_attr_def)
  ultimately show ?thesis by simp
qed

lemma add_relationship_edge_no_sequence:
  "edge_attr G u v ''sequence'' = None \<Longrightarrow> edge_attr (add_relationship_edge r G) u v ''sequence'' = None"
  by (auto simp: add_relationship_edge_def edge_attr_add_edge map_of_dict_update_relationship)
     (simp add: edge_attr_def split: option.splits)

lemma rel_fold_no_sequence:
  "\<forall>u v. edge_attr G u v ''sequence'' = None \<Longrightarrow>
     edge_attr (fold add_relationship_edge rs G) u v ''sequence'' = None"
  by (induction rs arbitrary: G) (simp_all add: add_relationship_edge_no_sequence)

lemma wf_add_relationship_edge: "wf_digraph G \<Longrightarrow> wf_digraph (add_relationship_edge r G)"
  by (simp add: add_relationship_edge_def wf_add_edge)

lemma wf_rel_fold: "wf_digraph G \<Longrightarrow> wf_digraph (fold add_relationship_edge rs G)"
  by (induction rs arbitrary: G) (simp_all add: wf_add_relationship_edge)

section \<open>The edges of one sequence\<close>

lemma add_sequence_edges_Nil [simp]: "add_sequence_edges kind owner [] G = G"
  by (simp add: add_sequence_edges_def)

lemma add_sequence_edges_snoc:
  "add_sequence_edges kind owner (seq @ [x]) G =
     (if has_node (add_sequence_edges kind owner seq G) x
      then add_edge owner x [(''relation'', PStr kind), (''sequence'', PInt (int (length seq) + 1))]
             (add_sequence_edges kind owner seq G)
      else add_sequence_edges kind owner seq G)"
  by (simp add: add_sequence_edges_def enumerate_append_eq)

lemma add_sequence_edges_nodes:
  "has_node G owner \<Longrightarrow> node_ids (add_sequence_edges kind owner seq G) = node_ids G"
  by (induction seq rule: rev_induct)
     (auto simp: add_sequence_edges_snoc has_node_iff)

lemma add_sequence_edges_has_node:
  "has_node G owner \<Longrightarrow> has_node (add_sequence_edges kind owner seq G) x = has_node G x"
  by (simp add: has_node_iff add_sequence_edges_nodes)

lemma add_sequence_edges_frame:
  "u \<noteq> owner \<or> v \<notin> set seq \<Longrightarrow>
     map_of (g_adj (add_sequence_edges kind owner seq G)) (u, v) = map_of (g_adj G) (u, v)"
  by (induction seq rule: rev_induct)
     (auto simp: add_sequence_edges_snoc map_of_adj_add_edge)

lemma add_sequence_edges_missing:
  "has_node G owner \<Longrightarrow> \<not> has_node G v \<Longrightarrow>
     map_of (g_adj (add_sequence_edges kind owner seq G)) (u, v) = map_of (g_adj G) (u, v)"
  by (induction seq rule: rev_induct)
     (auto simp: add_sequence_edges_snoc map_of_adj_add_edge add_sequence_edges_has_node)

lemma add_sequence_edges_effect:
  assumes "has_node G owner" "i < length seq" "has_node G (seq ! i)"
    "seq ! i \<notin> set (drop (Suc i) seq)"
  shows "edge_attr (add_sequence_edges kind owner seq G) owner (seq ! i) ''sequence'' = Some (PInt (int i + 1))
       \<and> edge_attr (add_sequence_edges kind owner seq G) owner (seq ! i) ''relation'' = Some (PStr kind)"
  using assms(2-4)
proof (induction seq rule: rev_induct)
  case Nil
  then show ?case by simp
next
  case (snoc x xs)
  let ?G' = "add_sequence_edges kind owner xs G"
  show ?case
  proof (cases "i = length xs")
    case True
    then have x: "(xs @ [x]) ! i = x" by simp
    with snoc.prems(2) have "has_node ?G' x"
      by (simp add: add_sequence_edges_has_node[OF assms(1)])
    then show ?thesis
      unfolding x using True
      by (simp add: add_sequence_edges_snoc edge_attr_add_edge map_of_dict_update_sequence)
  next
    case False
    with snoc.prems(1) have i: "i < length xs" by simp
    then have nth: "(xs @ [x]) ! i = xs ! i" by (simp add: nth_append)
    from snoc.prems(3) i have notin: "xs ! i \<notin> set (drop (Suc i) xs)" and neq: "x \<noteq> xs ! i"
      by (auto simp: nth)
    from snoc.IH[OF i] snoc.prems(2) notin
    have IH: "edge_attr ?G' owner (xs ! i) ''sequence'' = Some (PInt (int i + 1))
       \<and> edge_attr ?G' owner (xs ! i) ''relation'' = Some (PStr kind)"
      by (simp add: nth)
    show ?thesis
      unfolding nth using IH neq
      by (simp add: add_sequence_edges_snoc edge_attr_add_edge)
  qed
qed

lemma add_sequence_edges_positions:
  assumes "has_node G owner"
    and "edge_attr (add_sequence_edges kind owner seq G) owner v ''sequence'' = Some p"
  shows "edge_attr G owner v ''sequence'' = Some p \<or>
         (\<exists>i < length seq. seq ! i = v \<and> has_node G v \<and> p = PInt (int i + 1))"
  using assms(2)
proof (induction seq arbitrary: p rule: rev_induct)
  case Nil
  then show ?case by simp
next
  case (snoc x xs)
  let ?G' = "add_sequence_edges kind owner xs G"
  show ?case
  proof (cases "has_node ?G' x \<and> v = x")
    case True
    then have "has_node G v"
      by (simp add: add_sequence_edges_has_node[OF assms(1)])
    moreover have "p = PInt (int (length xs) + 1)"
      using snoc.prems True
      by (simp add: add_sequence_edges_snoc edge_attr_add_edge map_of_dict_update_sequence)
    ultimately show ?thesis using True
      by (intro disjI2 exI[of _ "length xs"]) simp
  next
    case False
    then have "edge_attr ?G' owner v ''sequence'' = Some p"
      using snoc.prems
      by (auto simp: add_sequence_edges_snoc edge_attr_add_edge split: if_splits)
    from snoc.IH[OF this] show ?thesis
      by (auto simp: nth_append intro: less_SucI)
  qed
qed

lemma wf_add_sequence_edges: "wf_digraph G \<Longrightarrow> wf_digraph (add_sequence_edges kind owner seq G)"
  by (induction seq rule: rev_induct) (simp_all add: add_sequence_edges_snoc wf_add_edge)

section \<open>The edges of all sequences\<close>

lemma add_contains_edges_eq:
  "add_contains_edges m = add_owner_edges ''CONTAINS'' c_sequence (gd_concepts m)"
  by (simp add: add_contains_edges_def add_owner_edges_def)

lemma add_includes_edges_eq:
  "add_includes_edges m = add_owner_edges ''INCLUDES'' p_conceptSequence (gd_learning_paths m)"
  by (simp add: add_includes_edges_def add_owner_edges_def)

lemma add_owner_edges_Nil [simp]: "add_owner_edges kind sel [] G = G"
  by (simp add: add_owner_edges_def)

lemma add_owner_edges_Cons:
  "add_owner_edges kind sel ((k, d) # xs) G =
     add_owner_edges kind sel xs
       (case sel d of None \<Rightarrow> G | Some seq \<Rightarrow> add_sequence_edges kind k seq G)"
  by (simp add: add_owner_edges_def)

lemma add_owner_edges_append:
  "add_owner_edges kind sel (xs @ ys) G = add_owner_edges kind sel ys (add_owner_edges kind sel xs G)"
  by (simp add: add_owner_edges_def)

lemma add_owner_edges_nodes:
  "\<forall>k \<in> fst ` set xs. has_node G k \<Longrightarrow> node_ids (add_owner_edges kind sel xs G) = node_ids G"
proof (induction xs arbitrary: G)
  case Nil
  then show ?case by simp
next
  case (Cons x xs)
  obtain k d where x: "x = (k, d)" by (cases x)
  let ?G1 = "case sel d of None \<Rightarrow> G | Some seq \<Rightarrow> add_sequence_edges kind k seq G"
  have 1: "node_ids ?G1 = node_ids G"
    using Cons.prems by (simp add: x add_sequence_edges_nodes split: option.splits)
  then have "\<forall>k \<in> fst ` set xs. has_node ?G1 k"
    using Cons.prems by (simp add: has_node_iff)
  from Cons.IH[OF this] 1 show ?case
    by (simp add: x add_owner_edges_Cons)
qed

lemma add_owner_edges_frame:
  "u \<notin> fst ` set xs \<Longrightarrow>
     map_of (g_adj (add_owner_edges kind sel xs G)) (u, v) = map_of (g_adj G) (u, v)"
proof (induction xs arbitrary: G)
  case Nil
  then show ?case by simp
next
  case (Cons x xs)
  obtain k d where x: "x = (k, d)" by (cases x)
  from Cons.prems have "u \<noteq> k" "u \<notin> fst ` set xs" by (auto simp: x)
  then show ?case
    using Cons.IH by (simp add: x add_owner_edges_Cons add_sequence_edges_frame split: option.splits)
qed

lemma add_owner_edges_missing:
  assumes "\<forall>k \<in> fst ` set xs. has_node G k" "\<not> has_node G v"
  shows "map_of (g_adj (add_owner_edges kind sel xs G)) (u, v) = map_of (g_adj G) (u, v)"
  using assms
proof (induction xs arbitrary: G)
  case Nil
  then show ?case by simp
next
  case (Cons x xs)
  obtain k d where x: "x = (k, d)" by (cases x)
  let ?G1 = "case sel d of None \<Rightarrow> G | Some seq \<Rightarrow> add_sequence_edges kind k seq G"
  have k: "has_node G k" using Cons.prems(1) by (simp add: x)
  have 1: "node_ids ?G1 = node_ids G"
    using k by (simp add: add_sequence_edges_nodes split: option.splits)
  have 2: "map_of (g_adj ?G1) (u, v) = map_of (g_adj G) (u, v)"
    using k Cons.prems(2) by (simp add: add_sequence_edges_missing split: option.splits)
  have "\<forall>k \<in> fst ` set xs. has_node ?G1 k" "\<not> has_node ?G1 v"
    using Cons.prems 1 by (simp_all add: has_node_iff)
  from Cons.IH[OF this] 2 show ?case
    by (simp add: x add_owner_edges_Cons)
qed

lemma add_owner_edges_split:
  assumes "distinct (map fst xs)" "(k, d) \<in> set xs" "sel d = Some seq"
    "\<forall>k \<in> fst ` set xs. has_node G k"
  obtains G1 where "node_ids G1 = node_ids G"
    "\<And>v. map_of (g_adj G1) (k, v) = map_of (g_adj G) (k, v)"
    "\<And>v. map_of (g_adj (add_owner_edges kind sel xs G)) (k, v) =
          map_of (g_adj (add_sequence_edges kind k seq G1)) (k, v)"
proof -
  from assms(2) obtain ys zs where xs: "xs = ys @ (k, d) # zs"
    by (auto dest: split_list)
  with assms(1) have k: "k \<notin> fst ` set ys" "k \<notin> fst ` set zs"
    by auto
  let ?G1 = "add_owner_edges kind sel ys G"
  have "node_ids ?G1 = node_ids G"
    using assms(4) by (intro add_owner_edges_nodes) (simp add: xs)
  moreover have "map_of (g_adj ?G1) (k, v) = map_of (g_adj G) (k, v)" for v
    using k(1) by (rule add_owner_edges_frame)
  moreover have "map_of (g_adj (add_owner_edges kind sel xs G)) (k, v) =
          map_of (g_adj (add_sequence_edges kind k seq ?G1)) (k, v)" for v
    unfolding xs add_owner_edges_append add_owner_edges_Cons
    using k(2) assms(3) by (simp add: add_owner_edges_frame)
  ultimately show ?thesis by (rule that)
qed

lemma edge_attr_cong_map_of:
  "map_of (g_adj G) (u, v) = map_of (g_adj H) (u, v) \<Longrightarrow> edge_attr G u v key = edge_attr H u v key"
  by (simp add: edge_attr_def)

lemma add_owner_edges_effect:
  assumes "distinct (map fst xs)" "(k, d) \<in> set xs" "sel d = Some seq"
    "\<forall>k \<in> fst ` set xs. has_node G k"
    "i < length seq" "has_node G (seq ! i)" "seq ! i \<notin> set (drop (Suc i) seq)"
  shows "edge_attr (add_owner_edges kind sel xs G) k (seq ! i) ''sequence'' = Some (PInt (int i + 1))
       \<and> edge_attr (add_owner_edges kind sel xs G) k (seq ! i) ''relation'' = Some (PStr kind)"
proof -
  from assms(1-4) obtain G1 where G1: "node_ids G1 = node_ids G"
    "\<And>v. map_of (g_adj (add_owner_edges kind sel xs G)) (k, v) =
          map_of (g_adj (add_sequence_edges kind k seq G1)) (k, v)"
    by (rule add_owner_edges_split[where kind = kind]) blast
  have "has_node G k" using assms(2,4) by force
  then have "has_node G1 k" "has_node G1 (seq ! i)"
    using assms(6) G1(1) by (simp_all add: has_node_iff)
  from add_sequence_edges_effect[OF this(1) assms(5) this(2) assms(7), of kind]
  show ?thesis
    unfolding edge_attr_cong_map_of[OF G1(2)] .
qed

lemma add_owner_edges_positions:
  assumes "distinct (map fst xs)" "(k, d) \<in> set xs" "sel d = Some seq"
    "\<forall>k \<in> fst ` set xs. has_node G k"
    and "edge_attr (add_owner_edges kind sel xs G) k v ''sequence'' = Some p"
  shows "edge_attr G k v ''sequence'' = Some p \<or>
         (\<exists>i < length seq. seq ! i = v \<and> has_node G v \<and> p = PInt (int i + 1))"
proof -
  from assms(1-4) obtain G1 where G1: "node_ids G1 = node_ids G"
    "\<And>v. map_of (g_adj G1) (k, v) = map_of (g_adj G) (k, v)"
    "\<And>v. map_of (g_adj (add_owner_edges kind sel xs G)) (k, v) =
          map_of (g_adj (add_sequence_edges kind k seq G1)) (k, v)"
    by (rule add_owner_edges_split[where kind = kind]) blast
  have "has_node G k" using assms(2,4) by force
  then have k: "has_node G1 k"
    using G1(1) by (simp add: has_node_iff)
  from assms(5) have "edge_attr (add_sequence_edges kind k seq G1) k v ''sequence'' = Some p"
    unfolding edge_attr_cong_map_of[OF G1(3)] .
  from add_sequence_edges_positions[OF k this] show ?thesis
    unfolding edge_attr_cong_map_of[OF G1(2)] using G1(1) by (simp add: has_node_iff)
qed

lemma wf_add_owner_edges: "wf_digraph G \<Longrightarrow> wf_digraph (add_owner_edges kind sel xs G)"
proof (induction xs arbitrary: G)
  case Nil
  then show ?case by simp
next
  case (Cons x xs)
  obtain k d where x: "x = (k, d)" by (cases x)
  show ?case
    using Cons.prems
    by (auto simp: x add_owner_edges_Cons intro!: Cons.IH wf_add_sequence_edges split: option.splits)
qed

section \<open>The built graph\<close>

lemma add_owner_edges_frame_members:
  "\<forall>d seq. (u, d) \<in> set xs \<and> sel d = Some seq \<longrightarrow> v \<notin> set seq \<Longrightarrow>
     map_of (g_adj (add_owner_edges kind sel xs G)) (u, v) = map_of (g_adj G) (u, v)"
proof (induction xs arbitrary: G)
  case Nil
  then show ?case by simp
next
  case (Cons x xs)
  obtain k d where x: "x = (k, d)" by (cases x)
  have 1: "map_of (g_adj (case sel d of None \<Rightarrow> G | Some seq \<Rightarrow> add_sequence_edges kind k seq G)) (u, v)
         = map_of (g_adj G) (u, v)"
  proof (cases "sel d")
    case None
    then show ?thesis by simp
  next
    case (Some seq)
    have "u \<noteq> k \<or> v \<notin> set seq"
      using Cons.prems Some by (auto simp: x)
    then show ?thesis
      using Some by (simp add: add_sequence_edges_frame)
  qed
  have "\<forall>d seq. (u, d) \<in> set xs \<and> sel d = Some seq \<longrightarrow> v \<notin> set seq"
    using Cons.prems by auto
  from Cons.IH[OF this] 1 show ?case
    by (simp add: x add_owner_edges_Cons)
qed

lemma id_with_kinds:
  "id_with ''N'' x \<Longrightarrow> \<not> id_with ''CONCEPT-'' x"
  "id_with ''N'' x \<Longrightarrow> \<not> id_with ''PATH-'' x"
  "id_with ''CONCEPT-'' x \<Longrightarrow> \<not> id_with ''PATH-'' x"
  by (auto simp: id_with_def prefix_def)

lemma wf_model_keys:
  assumes "wf_model m"
  shows "(k, kd) \<in> set (gd_knowledge_nodes m) \<Longrightarrow> id_with ''N'' k"
    and "(c, cd) \<in> set (gd_concepts m) \<Longrightarrow> id_with ''CONCEPT-'' c"
    and "(p, pd) \<in> set (gd_learning_paths m) \<Longrightarrow> id_with ''PATH-'' p"
  using assms unfolding wf_model_def list_all_iff by blast+

lemma wf_model_sequences:
  assumes "wf_model m"
  shows "(c, cd) \<in> set (gd_concepts m) \<Longrightarrow> c_sequence cd = Some seq \<Longrightarrow> n \<in> set seq \<Longrightarrow> id_with ''N'' n"
    and "(p, pd) \<in> set (gd_learning_paths m) \<Longrightarrow> p_conceptSequence pd = Some seq \<Longrightarrow> n \<in> set seq
           \<Longrightarrow> id_with ''CONCEPT-'' n"
  using assms unfolding wf_model_def list_all_iff by fastforce+

lemma wf_model_disjoint:
  assumes "wf_model m"
  shows "(c, cd) \<in> set (gd_concepts m) \<Longrightarrow> c \<notin> fst ` set (gd_learning_paths m)"
    and "(p, pd) \<in> set (gd_learning_paths m) \<Longrightarrow> p \<notin> fst ` set (gd_concepts m)"
proof -
  show "c \<notin> fst ` set (gd_learning_paths m)" if "(c, cd) \<in> set (gd_concepts m)"
  proof
    assume "c \<in> fst ` set (gd_learning_paths m)"
    then obtain pd' where "(c, pd') \<in> set (gd_learning_paths m)" by auto
    then have "id_with ''PATH-'' c" by (rule wf_model_keys(3)[OF assms])
    moreover have "id_with ''CONCEPT-'' c" using that by (rule wf_model_keys(2)[OF assms])
    ultimately show False by (simp add: id_with_kinds)
  qed
  show "p \<notin> fst ` set (gd_concepts m)" if "(p, pd) \<in> set (gd_learning_paths m)"
  proof
    assume "p \<in> fst ` set (gd_concepts m)"
    then obtain cd' where "(p, cd') \<in> set (gd_concepts m)" by auto
    then have "id_with ''CONCEPT-'' p" by (rule wf_model_keys(2)[OF assms])
    moreover have "id_with ''PATH-'' p" using that by (rule wf_model_keys(3)[OF assms])
    ultimately show False by (simp add: id_with_kinds)
  qed
qed

lemma wf_fold_add_node:
  "wf_digraph G \<Longrightarrow> wf_digraph (fold (\<lambda>(k, d). add_node k (f d)) xs G)"
  by (induction xs arbitrary: G) (auto simp: case_prod_beta wf_add_node)

text \<open>The graph after the three node loops and after the relationship loop.\<close>

lemma build_unfold:
  "build_networkx_graph m =
     add_owner_edges ''INCLUDES'' p_conceptSequence (gd_learning_paths m)
       (add_owner_edges ''CONTAINS'' c_sequence (gd_concepts m)
          (fold add_relationship_edge (gd_relationships m)
             (add_path_nodes m (add_concept_nodes m (add_knowledge_nodes m DiGraph)))))"
  by (simp add: build_networkx_graph_def add_contains_edges_eq add_includes_edges_eq)

lemma rel_graph_nodes:
  "node_ids (fold add_relationship_edge rs
      (add_path_nodes m (add_concept_nodes m (add_knowledge_nodes m DiGraph)))) = entity_ids m"
  by (simp add: node_loops_nodes)

lemma rel_graph_no_sequence:
  "edge_attr (fold add_relationship_edge rs
      (add_path_nodes m (add_concept_nodes m (add_knowledge_nodes m DiGraph)))) u v ''sequence'' = None"
  by (rule rel_fold_no_sequence) (simp add: edge_attr_def node_loops_adj)

lemma concept_keys_entities: "fst ` set (gd_concepts m) \<subseteq> entity_ids m"
  by (auto simp: entity_ids_def)

lemma path_keys_entities: "fst ` set (gd_learning_paths m) \<subseteq> entity_ids m"
  by (auto simp: entity_ids_def)

lemma contains_graph_nodes:
  "node_ids (add_owner_edges ''CONTAINS'' c_sequence (gd_concepts m)
          (fold add_relationship_edge rs
             (add_path_nodes m (add_concept_nodes m (add_knowledge_nodes m DiGraph))))) = entity_ids m"
  using concept_keys_entities[of m]
  by (subst add_owner_edges_nodes) (auto simp: has_node_iff node_loops_nodes)

theorem build_nodes: "node_ids (build_networkx_graph m) = entity_ids m"
  unfolding build_unfold
  using path_keys_entities[of m]
  by (subst add_owner_edges_nodes) (auto simp: has_node_iff contains_graph_nodes)

theorem wf_build: "wf_digraph (build_networkx_graph m)"
  unfolding build_unfold add_path_nodes_def add_concept_nodes_def add_knowledge_nodes_def
  by (intro wf_add_owner_edges wf_rel_fold wf_fold_add_node wf_DiGraph)

lemma build_edge_ends:
  assumes "(u, v) \<in> edge_keys (build_networkx_graph m)"
  shows "u \<in> entity_ids m \<and> v \<in> entity_ids m"
  using wf_build[of m] assms unfolding wf_digraph_iff build_nodes by auto

lemma build_ignores_dangling:
  assumes "r_source r \<notin> entity_ids m \<or> r_target r \<notin> entity_ids m"
  shows "build_networkx_graph (m\<lparr>gd_relationships := rs1 @ r # rs2\<rparr>) =
         build_networkx_graph (m\<lparr>gd_relationships := rs1 @ rs2\<rparr>)"
proof -
  let ?G3 = "add_path_nodes m (add_concept_nodes m (add_knowledge_nodes m DiGraph))"
  have G3: "add_path_nodes (m\<lparr>gd_relationships := x\<rparr>)
             (add_concept_nodes (m\<lparr>gd_relationships := x\<rparr>)
                (add_knowledge_nodes (m\<lparr>gd_relationships := x\<rparr>) DiGraph)) = ?G3" for x
    by (simp add: add_path_nodes_def add_concept_nodes_def add_knowledge_nodes_def)
  have "fold add_relationship_edge (rs1 @ r # rs2) ?G3 = fold add_relationship_edge (rs1 @ rs2) ?G3"
    using assms by (intro rel_fold_dangling) (simp add: node_loops_nodes)
  then show ?thesis
    unfolding build_unfold G3 by simp
qed

lemma build_contains_effect:
  assumes wf: "wf_model m" and c: "(c, d) \<in> set (gd_concepts m)" "c_sequence d = Some seq"
    and i: "i < length seq" "seq ! i \<in> entity_ids m" "seq ! i \<notin> set (drop (Suc i) seq)"
  shows "edge_attr (build_networkx_graph m) c (seq ! i) ''sequence'' = Some (PInt (int i + 1))
       \<and> edge_attr (build_networkx_graph m) c (seq ! i) ''relation'' = Some (PStr ''CONTAINS'')"
proof -
  let ?G4 = "fold add_relationship_edge (gd_relationships m)
      (add_path_nodes m (add_concept_nodes m (add_knowledge_nodes m DiGraph)))"
  let ?G5 = "add_owner_edges ''CONTAINS'' c_sequence (gd_concepts m) ?G4"
  have "c \<notin> fst ` set (gd_learning_paths m)"
    using wf c(1) by (rule wf_model_disjoint)
  then have frame: "map_of (g_adj (build_networkx_graph m)) (c, v) = map_of (g_adj ?G5) (c, v)" for v
    unfolding build_unfold by (rule add_owner_edges_frame)
  have "distinct (map fst (gd_concepts m))"
    using wf by (simp add: wf_model_def)
  moreover have "\<forall>k \<in> fst ` set (gd_concepts m). has_node ?G4 k"
    using concept_keys_entities[of m] by (auto simp: has_node_iff rel_graph_nodes node_loops_nodes)
  moreover have "has_node ?G4 (seq ! i)"
    using i(2) by (simp add: has_node_iff rel_graph_nodes node_loops_nodes)
  ultimately show ?thesis
    unfolding edge_attr_cong_map_of[OF frame]
    using c i(1,3) by (intro add_owner_edges_effect)
qed


lemma build_contains_positions:
  assumes wf: "wf_model m" and c: "(c, d) \<in> set (gd_concepts m)" "c_sequence d = Some seq"
    and p: "edge_attr (build_networkx_graph m) c v ''sequence'' = Some p"
  shows "\<exists>i < length seq. seq ! i = v \<and> v \<in> entity_ids m \<and> p = PInt (int i + 1)"
proof -
  let ?G4 = "fold add_relationship_edge (gd_relationships m)
      (add_path_nodes m (add_concept_nodes m (add_knowledge_nodes m DiGraph)))"
  let ?G5 = "add_owner_edges ''CONTAINS'' c_sequence (gd_concepts m) ?G4"
  have "c \<notin> fst ` set (gd_learning_paths m)"
    using wf c(1) by (rule wf_model_disjoint)
  then have frame: "map_of (g_adj (build_networkx_graph m)) (c, v) = map_of (g_adj ?G5) (c, v)" for v
    unfolding build_unfold by (rule add_owner_edges_frame)
  have 1: "distinct (map fst (gd_concepts m))"
    using wf by (simp add: wf_model_def)
  have 2: "\<forall>k \<in> fst ` set (gd_concepts m). has_node ?G4 k"
    using concept_keys_entities[of m] by (auto simp: has_node_iff rel_graph_nodes node_loops_nodes)
  from p have "edge_attr ?G5 c v ''sequence'' = Some p"
    unfolding edge_attr_cong_map_of[OF frame] .
  from add_owner_edges_positions[OF 1 c 2 this] show ?thesis
    by (simp add: rel_graph_no_sequence has_node_iff rel_graph_nodes node_loops_nodes)
qed


lemma build_relationship_last:
  assumes wf: "wf_model m" and rs: "gd_relationships m = rs1 @ r # rs2"
    and ends: "r_source r \<in> entity_ids m" "r_target r \<in> entity_ids m"
    and last: "\<forall>r' \<in> set rs2. (r_source r', r_target r') \<noteq> (r_source r, r_target r)"
  shows "edge_attr (build_networkx_graph m) (r_source r) (r_target r) ''relation'' = Some (PStr (r_type r))"
    and "edge_attr (build_networkx_graph m) (r_source r) (r_target r) ''strength'' = Some (PInt (r_strength r))"
    and "edge_attr (build_networkx_graph m) (r_source r) (r_target r) ''justification''
           = Some (PStr (r_justification r))"
proof -
  let ?s = "r_source r" and ?t = "r_target r"
  let ?G3 = "add_path_nodes m (add_concept_nodes m (add_knowledge_nodes m DiGraph))"
  let ?G4 = "fold add_relationship_edge (gd_relationships m) ?G3"
  let ?G5 = "add_owner_edges ''CONTAINS'' c_sequence (gd_concepts m) ?G4"
  have "r \<in> set (gd_relationships m)" by (simp add: rs)
  then have kinds: "(id_with ''N'' ?s \<and> id_with ''N'' ?t) \<or> (id_with ''CONCEPT-'' ?s \<and> id_with ''CONCEPT-'' ?t)"
    using wf unfolding wf_model_def list_all_iff by blast
  have "?s \<notin> fst ` set (gd_learning_paths m)"
  proof
    assume "?s \<in> fst ` set (gd_learning_paths m)"
    then obtain pd where "(?s, pd) \<in> set (gd_learning_paths m)" by auto
    then have "id_with ''PATH-'' ?s" by (rule wf_model_keys(3)[OF wf])
    with kinds show False by (auto simp: id_with_kinds)
  qed
  then have f1: "map_of (g_adj (build_networkx_graph m)) (?s, ?t) = map_of (g_adj ?G5) (?s, ?t)"
    unfolding build_unfold by (rule add_owner_edges_frame)
  have "\<forall>d seq. (?s, d) \<in> set (gd_concepts m) \<and> c_sequence d = Some seq \<longrightarrow> ?t \<notin> set seq"
  proof (intro allI impI notI)
    fix d seq
    assume a: "(?s, d) \<in> set (gd_concepts m) \<and> c_sequence d = Some seq" and t: "?t \<in> set seq"
    from a have "id_with ''CONCEPT-'' ?s" by (auto intro: wf_model_keys(2)[OF wf])
    with kinds have "id_with ''CONCEPT-'' ?t" by (auto simp: id_with_kinds)
    moreover from a t have "id_with ''N'' ?t" by (auto intro: wf_model_sequences(1)[OF wf])
    ultimately show False by (simp add: id_with_kinds)
  qed
  then have f2: "map_of (g_adj ?G5) (?s, ?t) = map_of (g_adj ?G4) (?s, ?t)"
    by (rule add_owner_edges_frame_members)
  have attr: "edge_attr (build_networkx_graph m) ?s ?t key = edge_attr ?G4 ?s ?t key" for key
    by (simp add: edge_attr_def f1 f2)
  have ends': "?s \<in> node_ids ?G3" "?t \<in> node_ids ?G3"
    using ends by (simp_all add: node_loops_nodes)
  note rel_fold_last[OF ends' last, of rs1]
  then have *: "edge_attr ?G4 ?s ?t key =
           (if key = ''justification'' then Some (PStr (r_justification r))
            else if key = ''strength'' then Some (PInt (r_strength r))
            else if key = ''relation'' then Some (PStr (r_type r))
            else edge_attr (fold add_relationship_edge rs1 ?G3) ?s ?t key)" for key
    unfolding rs .
  show "edge_attr (build_networkx_graph m) ?s ?t ''relation'' = Some (PStr (r_type r))"
    unfolding attr * by simp
  show "edge_attr (build_networkx_graph m) ?s ?t ''strength'' = Some (PInt (r_strength r))"
    unfolding attr * by simp
  show "edge_attr (build_networkx_graph m) ?s ?t ''justification'' = Some (PStr (r_justification r))"
    unfolding attr * by simp
qed

lemma build_distinct_edges: "distinct (map fst (g_adj (build_networkx_graph m)))"
  using wf_build[of m] by (simp add: wf_digraph_def)

section \<open>When the parser returns\<close>

lemma try_fold_total:
  "(\<And>x s. x \<in> set xs \<Longrightarrow> \<exists>s'. body x s = Inr s') \<Longrightarrow> \<exists>s'. try_fold body xs s = Inr s'"
proof (induction xs arbitrary: s)
  case Nil
  then show ?case by simp
next
  case (Cons x xs)
  from Cons.prems[of x s] obtain s1 where "body x s = Inr s1" by auto
  moreover from Cons.IH[of s1] Cons.prems obtain s' where "try_fold body xs s1 = Inr s'"
    by auto
  ultimately show ?case by (auto simp: try_fold_Cons_Inr)
qed

lemma try_fold_steps:
  "try_fold body xs s = Inr s' \<Longrightarrow> x \<in> set xs \<Longrightarrow> \<exists>s1 s2. body x s1 = Inr s2"
proof (induction xs arbitrary: s)
  case Nil
  then show ?case by simp
next
  case (Cons y xs)
  then show ?case by (auto simp: try_fold_Cons_Inr)
qed

lemma py_int_Inr_iff: "digits s \<Longrightarrow> (\<exists>n. py_int s = Inr n) \<longleftrightarrow> length s \<le> int_max_str_digits"
  by (simp add: py_int_digits)

lemma knowledge_node_step:
  assumes "caps \<in> set (finditer knowledge_node_pattern text)"
  shows "(\<exists>s'. add_knowledge_node caps s = Inr s') \<longleftrightarrow> short (caps ! 4)"
  using knowledge_node_match_shape[OF assms]
  by (auto simp: bind_Inr_iff short_def py_int_digits split: if_splits)

lemma concept_step:
  assumes "caps \<in> set (finditer concept_pattern text)"
  shows "(\<exists>s'. add_concept caps s = Inr s') \<longleftrightarrow> short (caps ! 3)"
  using concept_match_shape[OF assms]
  by (auto simp: bind_Inr_iff short_def py_int_digits split: if_splits)

lemma learning_path_step:
  assumes "caps \<in> set (finditer path_pattern text)"
  shows "(\<exists>s'. add_learning_path caps s = Inr s') \<longleftrightarrow> short (caps ! 5)"
  using path_match_shape[OF assms]
  by (auto simp: bind_Inr_iff short_def py_int_digits split: if_splits)

lemma node_relationship_step:
  assumes "caps \<in> set (finditer node_relationship_pattern text)"
  shows "(\<exists>s'. add_node_relationship caps s = Inr s') \<longleftrightarrow> short (caps ! 3)"
  using node_relationship_match_shape[OF assms]
  by (auto simp: bind_Inr_iff short_def py_int_digits split: if_splits)

lemma concept_node_step:
  assumes "caps \<in> set (finditer concept_node_pattern text)"
  shows "(\<exists>s'. add_concept_node caps s = Inr s') \<longleftrightarrow> short (caps ! 2)"
  using concept_node_match_shape[OF assms]
  by (cases s) (auto simp: bind_Inr_iff short_def py_int_digits split: if_splits)

lemma path_concept_step:
  assumes "caps \<in> set (finditer path_concept_pattern text)"
  shows "(\<exists>s'. add_path_concept caps s = Inr s') \<longleftrightarrow> short (caps ! 2)"
  using path_concept_match_shape[OF assms]
  by (cases s) (auto simp: bind_Inr_iff short_def py_int_digits split: if_splits)

lemma prereq_step:
  assumes "caps \<in> set (finditer prereq_pattern text)"
  shows "\<exists>s'. add_prereq caps s = Inr s'"
  using prereq_match_shape[OF assms] by auto

lemma try_fold_Inr_iff:
  assumes "\<And>x s. x \<in> set xs \<Longrightarrow> (\<exists>s'. body x s = Inr s') \<longleftrightarrow> ok x"
  shows "(\<exists>s'. try_fold body xs s = Inr s') \<longleftrightarrow> list_all ok xs"
proof
  assume "\<exists>s'. try_fold body xs s = Inr s'"
  then obtain s' where s': "try_fold body xs s = Inr s'" by blast
  show "list_all ok xs"
    unfolding list_all_iff
  proof
    fix x assume x: "x \<in> set xs"
    from try_fold_steps[OF s' x] assms[OF x] show "ok x" by blast
  qed
next
  assume "list_all ok xs"
  then show "\<exists>s'. try_fold body xs s = Inr s'"
    using assms by (intro try_fold_total) (auto simp: list_all_iff)
qed

lemma numeric_fields_digits: "list_all digits (numeric_fields text)"
  unfolding numeric_fields_def list_all_iff
  by (auto dest!: knowledge_node_match_shape concept_match_shape path_match_shape
       node_relationship_match_shape concept_node_match_shape path_concept_match_shape)

lemma parse_returns_iff:
  "(\<exists>m. parse_cypher_file text = Inr m) \<longleftrightarrow> list_all short (numeric_fields text)"
proof -
  have 1: "(\<exists>s'. try_fold add_knowledge_node (finditer knowledge_node_pattern text) s = Inr s')
      \<longleftrightarrow> list_all (\<lambda>caps. short (caps ! 4)) (finditer knowledge_node_pattern text)" for s
    by (rule try_fold_Inr_iff) (rule knowledge_node_step)
  have 2: "(\<exists>s'. try_fold add_concept (finditer concept_pattern text) s = Inr s')
      \<longleftrightarrow> list_all (\<lambda>caps. short (caps ! 3)) (finditer concept_pattern text)" for s
    by (rule try_fold_Inr_iff) (rule concept_step)
  have 3: "(\<exists>s'. try_fold add_learning_path (finditer path_pattern text) s = Inr s')
      \<longleftrightarrow> list_all (\<lambda>caps. short (caps ! 5)) (finditer path_pattern text)" for s
    by (rule try_fold_Inr_iff) (rule learning_path_step)
  have 4: "(\<exists>s'. try_fold add_node_relationship (finditer node_relationship_pattern text) s = Inr s')
      \<longleftrightarrow> list_all (\<lambda>caps. short (caps ! 3)) (finditer node_relationship_pattern text)" for s
    by (rule try_fold_Inr_iff) (rule node_relationship_step)
  have 5: "(\<exists>s'. try_fold add_concept_node (finditer concept_node_pattern text) s = Inr s')
      \<longleftrightarrow> list_all (\<lambda>caps. short (caps ! 2)) (finditer concept_node_pattern text)" for s
    by (rule try_fold_Inr_iff) (rule concept_node_step)
  have 6: "(\<exists>s'. try_fold add_path_concept (finditer path_concept_pattern text) s = Inr s')
      \<longleftrightarrow> list_all (\<lambda>caps. short (caps ! 2)) (finditer path_concept_pattern text)" for s
    by (rule try_fold_Inr_iff) (rule path_concept_step)
  have 7: "\<exists>s'. try_fold add_prereq (finditer prereq_pattern text) s = Inr s'" for s
    by (rule try_fold_total) (rule prereq_step)
  have all: "list_all short (numeric_fields text) \<longleftrightarrow>
      list_all (\<lambda>caps. short (caps ! 4)) (finditer knowledge_node_pattern text) \<and>
      list_all (\<lambda>caps. short (caps ! 3)) (finditer concept_pattern text) \<and>
      list_all (\<lambda>caps. short (caps ! 5)) (finditer path_pattern text) \<and>
      list_all (\<lambda>caps. short (caps ! 3)) (finditer node_relationship_pattern text) \<and>
      list_all (\<lambda>caps. short (caps ! 2)) (finditer concept_node_pattern text) \<and>
      list_all (\<lambda>caps. short (caps ! 2)) (finditer path_concept_pattern text)"
    by (simp add: numeric_fields_def list_all_iff ball_Un)
  show ?thesis
  proof
    assume "\<exists>m. parse_cypher_file text = Inr m"
    then obtain m where "parse_cypher_file text = Inr m" ..
    then show "list_all short (numeric_fields text)"
      unfolding all
      by (elim parse_cypher_file_Inr) (metis 1 2 3 4 5 6)
  next
    assume "list_all short (numeric_fields text)"
    then have ok: "list_all (\<lambda>caps. short (caps ! 4)) (finditer knowledge_node_pattern text)"
      "list_all (\<lambda>caps. short (caps ! 3)) (finditer concept_pattern text)"
      "list_all (\<lambda>caps. short (caps ! 5)) (finditer path_pattern text)"
      "list_all (\<lambda>caps. short (caps ! 3)) (finditer node_relationship_pattern text)"
      "list_all (\<lambda>caps. short (caps ! 2)) (finditer concept_node_pattern text)"
      "list_all (\<lambda>caps. short (caps ! 2)) (finditer path_concept_pattern text)"
      unfolding all by simp_all
    from ok(1) 1 obtain kns where
      kns: "try_fold add_knowledge_node (finditer knowledge_node_pattern text) [] = Inr kns" by blast
    from ok(2) 2 obtain cs0 where
      cs0: "try_fold add_concept (finditer concept_pattern text) [] = Inr cs0" by blast
    from ok(3) 3 obtain ps0 where
      ps0: "try_fold add_learning_path (finditer path_pattern text) [] = Inr ps0" by blast
    from ok(4) 4 obtain rs0 where
      rs0: "try_fold add_node_relationship (finditer node_relationship_pattern text) [] = Inr rs0" by blast
    from ok(5) 5 obtain cn cs1 where
      cn: "try_fold add_concept_node (finditer concept_node_pattern text) ([], cs0) = Inr (cn, cs1)"
      by (metis surj_pair)
    from ok(6) 6 obtain pc ps1 where
      pc: "try_fold add_path_concept (finditer path_concept_pattern text) ([], ps0) = Inr (pc, ps1)"
      by (metis surj_pair)
    from 7 obtain rs1 where
      rs1: "try_fold add_prereq (finditer prereq_pattern text) rs0 = Inr rs1" by blast
    show "\<exists>m. parse_cypher_file text = Inr m"
      unfolding parse_cypher_file_def
      by (simp add: kns cs0 ps0 rs0 cn pc rs1 bind_def)
  qed
qed

lemma parse_nothing_recognized:
  assumes "finditer knowledge_node_pattern text = []" "finditer concept_pattern text = []"
    "finditer path_pattern text = []" "finditer node_relationship_pattern text = []"
    "finditer concept_node_pattern text = []" "finditer path_concept_pattern text = []"
    "finditer prereq_pattern text = []"
  shows "parse_cypher_file text =
           Inr \<lparr>gd_knowledge_nodes = [], gd_concepts = [], gd_learning_paths = [], gd_relationships = []\<rparr>"
  unfolding parse_cypher_file_def by (simp add: assms bind_def)

section \<open>Passing over text in which no pattern starts\<close>

lemma strip_prefix_no_start:
  "\<not> may_start l u \<Longrightarrow> strip_prefix l (u @ s) = None"
  by (induction l u rule: may_start.induct) auto

lemma match_at_no_start:
  "\<not> may_start l u \<Longrightarrow> match_at (Item (Lit l) # ps) (u @ s) = None"
  by (simp add: match_at_def strip_prefix_no_start)

lemma scan_no_start:
  "\<not> starts l u \<Longrightarrow> scan (Item (Lit l) # ps) 0 (u @ s) = scan (Item (Lit l) # ps) 0 s"
proof (induction u)
  case Nil
  then show ?case by simp
next
  case (Cons y ys)
  then have "match_at (Item (Lit l) # ps) ((y # ys) @ s) = None"
    by (intro match_at_no_start) simp
  with Cons show ?case by simp
qed

lemma scan_pass_over: "scan p (length u) (u @ s) = scan p 0 s"
  by (induction u) simp_all

lemma scan_match:
  assumes "match_at p (u @ s) = Some (caps, u)" "u \<noteq> []"
  shows "scan p 0 (u @ s) = caps # scan p 0 s"
proof -
  from assms(2) obtain c u' where u: "u = c # u'" by (cases u) auto
  have "scan p 0 (u @ s) = caps # scan p (length u') (u' @ s)"
    using assms(1) unfolding u by simp
  then show ?thesis by (simp add: scan_pass_over)
qed

lemma scan_end: "scan (Item (Lit (a # l)) # ps) 0 [] = []"
  by (simp add: match_at_def)

lemmas pattern_defs = knowledge_node_pattern_def concept_pattern_def path_pattern_def
  node_relationship_pattern_def concept_node_pattern_def path_concept_pattern_def prereq_pattern_def

lemma scan_passes:
  "\<not> starts ''CREATE (n:KnowledgeNode {'' u \<Longrightarrow>
     scan knowledge_node_pattern 0 (u @ s) = scan knowledge_node_pattern 0 s"
  "\<not> starts ''CREATE (c:Concept {'' u \<Longrightarrow> scan concept_pattern 0 (u @ s) = scan concept_pattern 0 s"
  "\<not> starts ''CREATE (p:LearningPath {'' u \<Longrightarrow> scan path_pattern 0 (u @ s) = scan path_pattern 0 s"
  "\<not> starts ''MATCH (a:KnowledgeNode {id: '' u \<Longrightarrow>
     scan node_relationship_pattern 0 (u @ s) = scan node_relationship_pattern 0 s"
  "\<not> starts ''MATCH (c:Concept {id: '' u \<Longrightarrow>
     scan concept_node_pattern 0 (u @ s) = scan concept_node_pattern 0 s"
  "\<not> starts ''MATCH (p:LearningPath {id: '' u \<Longrightarrow>
     scan path_concept_pattern 0 (u @ s) = scan path_concept_pattern 0 s"
  "\<not> starts ''MATCH (a:Concept {id: '' u \<Longrightarrow> scan prereq_pattern 0 (u @ s) = scan prereq_pattern 0 s"
  unfolding pattern_defs by (rule scan_no_start, assumption)+

lemma scan_ends:
  "scan knowledge_node_pattern 0 [] = []" "scan concept_pattern 0 [] = []"
  "scan path_pattern 0 [] = []" "scan node_relationship_pattern 0 [] = []"
  "scan concept_node_pattern 0 [] = []" "scan path_concept_pattern 0 [] = []"
  "scan prereq_pattern 0 [] = []"
  unfolding pattern_defs by (simp_all add: match_at_def)

section \<open>Further facts about sequences and edges\<close>

lemma declared_members_none: "c \<notin> hd ` set ms \<Longrightarrow> declared_members ms c = []"
  by (induction ms) (auto simp: declared_members_def split: list.splits)

lemma map_of_distinct_mem:
  "distinct (map fst xs) \<Longrightarrow> (k, d) \<in> set xs \<Longrightarrow> map_of xs k = Some d"
  by simp

lemma build_no_sequence_edges:
  assumes wf: "wf_model m" and c: "(c, d) \<in> set (gd_concepts m)" and none: "c_sequence d = None"
  shows "edge_attr (build_networkx_graph m) c v ''sequence'' = None"
proof -
  have dist: "distinct (map fst (gd_concepts m))"
    using wf by (simp add: wf_model_def)
  have only: "\<forall>d' seq. (c, d') \<in> set (gd_concepts m) \<and> c_sequence d' = Some seq \<longrightarrow> v \<notin> set seq"
  proof (intro allI impI)
    fix d' seq
    assume a: "(c, d') \<in> set (gd_concepts m) \<and> c_sequence d' = Some seq"
    have "map_of (gd_concepts m) c = Some d"
      by (rule map_of_distinct_mem[OF dist c])
    moreover have "map_of (gd_concepts m) c = Some d'"
      using map_of_distinct_mem[OF dist] a by blast
    ultimately show "v \<notin> set seq"
      using none a by simp
  qed
  have "edge_attr (build_networkx_graph m) c v ''sequence''
      = edge_attr (add_owner_edges ''CONTAINS'' c_sequence (gd_concepts m)
          (fold add_relationship_edge (gd_relationships m)
             (add_path_nodes m (add_concept_nodes m (add_knowledge_nodes m DiGraph))))) c v ''sequence''"
    unfolding build_unfold
    by (rule edge_attr_cong_map_of, rule add_owner_edges_frame) (rule wf_model_disjoint(1)[OF wf c])
  also have "\<dots> = edge_attr (fold add_relationship_edge (gd_relationships m)
             (add_path_nodes m (add_concept_nodes m (add_knowledge_nodes m DiGraph)))) c v ''sequence''"
    by (rule edge_attr_cong_map_of, rule add_owner_edges_frame_members) (rule only)
  also have "\<dots> = None"
    by (rule rel_graph_no_sequence)
  finally show ?thesis .
qed

lemma count_list_sort_key: "count_list (map f (sort_key g xs)) x = count_list (map f xs) x"
proof -
  have "mset (map f (sort_key g xs)) = mset (map f xs)"
    by simp
  then show ?thesis
    by (metis count_mset)
qed

lemma last_occurrence:
  "x \<in> set xs \<Longrightarrow> \<exists>i < length xs. xs ! i = x \<and> x \<notin> set (drop (Suc i) xs)"
proof (induction xs)
  case Nil
  then show ?case by simp
next
  case (Cons a xs)
  show ?case
  proof (cases "x \<in> set xs")
    case True
    then obtain i where "i < length xs" "xs ! i = x" "x \<notin> set (drop (Suc i) xs)"
      using Cons.IH by blast
    then have "Suc i < length (a # xs) \<and> (a # xs) ! Suc i = x \<and> x \<notin> set (drop (Suc (Suc i)) (a # xs))"
      by simp
    then show ?thesis by blast
  next
    case False
    then have "0 < length (a # xs) \<and> (a # xs) ! 0 = x \<and> x \<notin> set (drop (Suc 0) (a # xs))"
      using Cons.prems by simp
    then show ?thesis by blast
  qed
qed

lemma count_list_mem: "0 < count_list xs x \<Longrightarrow> x \<in> set xs"
  by (metis count_list_0_iff less_numeral_extra(3))




lemma distinct_filter_key_le: "distinct (map fst xs) \<Longrightarrow> length (filter (\<lambda>e. fst e = k) xs) \<le> 1"
proof (induction xs)
  case Nil
  then show ?case by simp
next
  case (Cons a xs)
  show ?case
  proof (cases "fst a = k")
    case True
    then have "k \<notin> fst ` set xs"
      using Cons.prems by auto
    then have "filter (\<lambda>e. fst e = k) xs = []"
      by (auto simp: filter_empty_conv)
    then show ?thesis
      using True by simp
  next
    case False
    then show ?thesis
      using Cons by simp
  qed
qed

section \<open>Node attributes of the built graph\<close>

lemma map_of_dict_update:
  "distinct (map fst kvs) \<Longrightarrow>
     map_of (dict_update d kvs) key = (case map_of kvs key of None \<Rightarrow> map_of d key | Some v \<Rightarrow> Some v)"
  unfolding dict_update_def
proof (induction kvs arbitrary: d)
  case Nil
  then show ?case by simp
next
  case (Cons x kvs)
  obtain k v where x: "x = (k, v)"
    by (cases x)
  have fresh: "map_of kvs k = None"
    using Cons.prems by (simp add: x map_of_eq_None_iff)
  have "map_of (fold (\<lambda>(k, v). AList.update k v) (x # kvs) d) key
      = (case map_of kvs key of None \<Rightarrow> map_of (AList.update k v d) key | Some v \<Rightarrow> Some v)"
    using Cons.IH[of "AList.update k v d"] Cons.prems by (simp add: x)
  also have "\<dots> = (case map_of (x # kvs) key of None \<Rightarrow> map_of d key | Some v \<Rightarrow> Some v)"
    using fresh by (simp add: x AList.update_conv' split: option.splits)
  finally show ?case .
qed

lemma g_node_add_edge_present:
  "has_node G u \<Longrightarrow> has_node G v \<Longrightarrow> g_node (add_edge u v a G) = g_node G"
  by (simp add: add_edge_def Let_def)

lemma g_node_add_relationship_edge [simp]: "g_node (add_relationship_edge r G) = g_node G"
  by (simp add: add_relationship_edge_def g_node_add_edge_present)

lemma g_node_rel_fold [simp]: "g_node (fold add_relationship_edge rs G) = g_node G"
  by (induction rs arbitrary: G) simp_all

lemma g_node_add_sequence_edges:
  "has_node G owner \<Longrightarrow> g_node (add_sequence_edges kind owner seq G) = g_node G"
proof (induction seq rule: rev_induct)
  case Nil
  then show ?case by simp
next
  case (snoc x xs)
  have own: "has_node (add_sequence_edges kind owner xs G) owner"
    using snoc.prems by (simp add: add_sequence_edges_has_node)
  show ?case
    using snoc own by (simp add: add_sequence_edges_snoc g_node_add_edge_present)
qed

lemma g_node_add_owner_edges:
  "\<forall>k \<in> fst ` set xs. has_node G k \<Longrightarrow> g_node (add_owner_edges kind sel xs G) = g_node G"
proof (induction xs arbitrary: G)
  case Nil
  then show ?case by simp
next
  case (Cons x xs)
  obtain k d where x: "x = (k, d)"
    by (cases x)
  show ?case
  proof (cases "sel d")
    case None
    then show ?thesis
      using Cons by (simp add: x add_owner_edges_Cons)
  next
    case (Some seq)
    have k: "has_node G k"
      using Cons.prems by (simp add: x)
    have "\<forall>k' \<in> fst ` set xs. has_node (add_sequence_edges kind k seq G) k'"
      using Cons.prems k by (simp add: add_sequence_edges_has_node)
    then have "g_node (add_owner_edges kind sel xs (add_sequence_edges kind k seq G))
        = g_node (add_sequence_edges kind k seq G)"
      by (rule Cons.IH)
    then show ?thesis
      using k Some by (simp add: x add_owner_edges_Cons g_node_add_sequence_edges)
  qed
qed

lemma fold_add_node_other:
  "c \<notin> fst ` set xs \<Longrightarrow>
     map_of (g_node (fold (\<lambda>(k, d). add_node k (f d)) xs G)) c = map_of (g_node G) c"
  by (induction xs arbitrary: G) (auto simp: add_node_def AList.update_conv')

lemma fold_add_node_lookup:
  "distinct (map fst xs) \<Longrightarrow> (c, d) \<in> set xs \<Longrightarrow>
     map_of (g_node (fold (\<lambda>(k, d). add_node k (f d)) xs G)) c
       = Some (dict_update (case map_of (g_node G) c of None \<Rightarrow> [] | Some e \<Rightarrow> e) (f d))"
proof (induction xs arbitrary: G)
  case Nil
  then show ?case by simp
next
  case (Cons x xs)
  obtain k e where x: "x = (k, e)"
    by (cases x)
  show ?case
  proof (cases "k = c")
    case True
    then have "c \<notin> fst ` set xs" and "e = d"
      using Cons.prems by (auto simp: x rev_image_eqI)
    then have "map_of (g_node (fold (\<lambda>(k, d). add_node k (f d)) xs (add_node c (f d) G))) c
        = map_of (g_node (add_node c (f d) G)) c"
      by (intro fold_add_node_other)
    moreover have "map_of (g_node (add_node c (f d) G)) c
        = Some (dict_update (case map_of (g_node G) c of None \<Rightarrow> [] | Some e \<Rightarrow> e) (f d))"
      by (simp add: add_node_def AList.update_conv')
    moreover have "fold (\<lambda>(k, d). add_node k (f d)) (x # xs) G
        = fold (\<lambda>(k, d). add_node k (f d)) xs (add_node c (f d) G)"
      using True \<open>e = d\<close> by (simp add: x)
    ultimately show ?thesis
      by simp
  next
    case False
    then have "(c, d) \<in> set xs" "distinct (map fst xs)"
      using Cons.prems by (auto simp: x)
    then show ?thesis
      using False Cons.IH[of "add_node k (f e) G"] by (simp add: x add_node_def AList.update_conv')
  qed
qed

lemma build_g_node:
  "g_node (build_networkx_graph m)
     = g_node (add_path_nodes m (add_concept_nodes m (add_knowledge_nodes m DiGraph)))"
proof -
  have c: "\<forall>k \<in> fst ` set (gd_concepts m). has_node (fold add_relationship_edge (gd_relationships m)
             (add_path_nodes m (add_concept_nodes m (add_knowledge_nodes m DiGraph)))) k"
    using concept_keys_entities[of m] by (auto simp: has_node_iff node_loops_nodes)
  have p: "\<forall>k \<in> fst ` set (gd_learning_paths m). has_node
      (add_owner_edges ''CONTAINS'' c_sequence (gd_concepts m)
          (fold add_relationship_edge (gd_relationships m)
             (add_path_nodes m (add_concept_nodes m (add_knowledge_nodes m DiGraph))))) k"
    using path_keys_entities[of m] by (auto simp: has_node_iff contains_graph_nodes)
  show ?thesis
    unfolding build_unfold by (simp add: g_node_add_owner_edges[OF p] g_node_add_owner_edges[OF c])
qed

lemma build_concept_node_attrs:
  assumes wf: "wf_model m" and c: "(c, d) \<in> set (gd_concepts m)"
  shows "node_attr (build_networkx_graph m) c key =
           (if key = ''type'' then Some (PStr ''Concept'')
            else if key = ''label'' then Some (PStr (c_name d))
            else map_of (concept_dict d) key)"
proof -
  let ?attrs = "\<lambda>d. AList.update ''type'' (PStr ''Concept'')
                  (AList.update ''label'' (PStr (c_name d)) (concept_dict d))"
  have dist: "distinct (map fst (gd_concepts m))"
    using wf by (simp add: wf_model_def)
  have cid: "id_with ''CONCEPT-'' c"
    by (rule wf_model_keys(2)[OF wf c])
  have nk: "c \<notin> fst ` set (gd_knowledge_nodes m)"
  proof
    assume "c \<in> fst ` set (gd_knowledge_nodes m)"
    then obtain kd where "(c, kd) \<in> set (gd_knowledge_nodes m)"
      by auto
    then have "id_with ''N'' c"
      by (rule wf_model_keys(1)[OF wf])
    then show False
      using cid id_with_kinds(1) by blast
  qed
  have np: "c \<notin> fst ` set (gd_learning_paths m)"
    by (rule wf_model_disjoint(1)[OF wf c])
  have k0: "map_of (g_node (add_knowledge_nodes m DiGraph)) c = None"
    unfolding add_knowledge_nodes_def by (simp add: fold_add_node_other[OF nk] DiGraph_def)
  have "map_of (g_node (add_concept_nodes m (add_knowledge_nodes m DiGraph))) c
      = Some (dict_update [] (?attrs d))"
    unfolding add_concept_nodes_def by (simp add: fold_add_node_lookup[OF dist c] k0)
  then have "map_of (g_node (build_networkx_graph m)) c = Some (dict_update [] (?attrs d))"
    unfolding build_g_node add_path_nodes_def by (simp add: fold_add_node_other[OF np])
  moreover have "distinct (map fst (?attrs d))"
    by (cases "c_sequence d") (simp_all add: concept_dict_def AList.distinct_update)
  ultimately show ?thesis
    by (simp add: node_attr_def map_of_dict_update AList.update_conv' split: option.splits)
qed

section \<open>The example statements under the seven patterns\<close>

lemma stmt_node_N1_match:
  "match_at knowledge_node_pattern (stmt_node_N1 @ s) = Some ([''N1'', ''T'', ''d'', ''Beginner'', ''5'', [], []], stmt_node_N1)"
  by (simp add: stmt_node_N1_def match_at_def pattern_defs DQ_def)

lemma stmt_node_N1_scan:
  "scan knowledge_node_pattern 0 (stmt_node_N1 @ s) = [''N1'', ''T'', ''d'', ''Beginner'', ''5'', [], []] # scan knowledge_node_pattern 0 s"
  "scan concept_pattern 0 (stmt_node_N1 @ s) = scan concept_pattern 0 s"
  "scan path_pattern 0 (stmt_node_N1 @ s) = scan path_pattern 0 s"
  "scan node_relationship_pattern 0 (stmt_node_N1 @ s) = scan node_relationship_pattern 0 s"
  "scan concept_node_pattern 0 (stmt_node_N1 @ s) = scan concept_node_pattern 0 s"
  "scan path_concept_pattern 0 (stmt_node_N1 @ s) = scan path_concept_pattern 0 s"
  "scan prereq_pattern 0 (stmt_node_N1 @ s) = scan prereq_pattern 0 s"
proof -
  show "scan knowledge_node_pattern 0 (stmt_node_N1 @ s) = [''N1'', ''T'', ''d'', ''Beginner'', ''5'', [], []] # scan knowledge_node_pattern 0 s"
    by (rule scan_match[OF stmt_node_N1_match]) (simp add: stmt_node_N1_def)
  show "scan concept_pattern 0 (stmt_node_N1 @ s) = scan concept_pattern 0 s"
    by (rule scan_passes) code_simp
  show "scan path_pattern 0 (stmt_node_N1 @ s) = scan path_pattern 0 s"
    by (rule scan_passes) code_simp
  show "scan node_relationship_pattern 0 (stmt_node_N1 @ s) = scan node_relationship_pattern 0 s"
    by (rule scan_passes) code_simp
  show "scan concept_node_pattern 0 (stmt_node_N1 @ s) = scan concept_node_pattern 0 s"
    by (rule scan_passes) code_simp
  show "scan path_concept_pattern 0 (stmt_node_N1 @ s) = scan path_concept_pattern 0 s"
    by (rule scan_passes) code_simp
  show "scan prereq_pattern 0 (stmt_node_N1 @ s) = scan prereq_pattern 0 s"
    by (rule scan_passes) code_simp
qed

lemma stmt_node_N2_match:
  "match_at knowledge_node_pattern (stmt_node_N2 @ s) = Some ([''N2'', ''T'', ''d'', ''Beginner'', ''5'', [], []], stmt_node_N2)"
  by (simp add: stmt_node_N2_def match_at_def pattern_defs DQ_def)

lemma stmt_node_N2_scan:
  "scan knowledge_node_pattern 0 (stmt_node_N2 @ s) = [''N2'', ''T'', ''d'', ''Beginner'', ''5'', [], []] # scan knowledge_node_pattern 0 s"
  "scan concept_pattern 0 (stmt_node_N2 @ s) = scan concept_pattern 0 s"
  "scan path_pattern 0 (stmt_node_N2 @ s) = scan path_pattern 0 s"
  "scan node_relationship_pattern 0 (stmt_node_N2 @ s) = scan node_relationship_pattern 0 s"
  "scan concept_node_pattern 0 (stmt_node_N2 @ s) = scan concept_node_pattern 0 s"
  "scan path_concept_pattern 0 (stmt_node_N2 @ s) = scan path_concept_pattern 0 s"
  "scan prereq_pattern 0 (stmt_node_N2 @ s) = scan prereq_pattern 0 s"
proof -
  show "scan knowledge_node_pattern 0 (stmt_node_N2 @ s) = [''N2'', ''T'', ''d'', ''Beginner'', ''5'', [], []] # scan knowledge_node_pattern 0 s"
    by (rule scan_match[OF stmt_node_N2_match]) (simp add: stmt_node_N2_def)
  show "scan concept_pattern 0 (stmt_node_N2 @ s) = scan concept_pattern 0 s"
    by (rule scan_passes) code_simp
  show "scan path_pattern 0 (stmt_node_N2 @ s) = scan path_pattern 0 s"
    by (rule scan_passes) code_simp
  show "scan node_relationship_pattern 0 (stmt_node_N2 @ s) = scan node_relationship_pattern 0 s"
    by (rule scan_passes) code_simp
  show "scan concept_node_pattern 0 (stmt_node_N2 @ s) = scan concept_node_pattern 0 s"
    by (rule scan_passes) code_simp
  show "scan path_concept_pattern 0 (stmt_node_N2 @ s) = scan path_concept_pattern 0 s"
    by (rule scan_passes) code_simp
  show "scan prereq_pattern 0 (stmt_node_N2 @ s) = scan prereq_pattern 0 s"
    by (rule scan_passes) code_simp
qed

lemma stmt_node_N3_match:
  "match_at knowledge_node_pattern (stmt_node_N3 @ s) = Some ([''N3'', ''T'', ''d'', ''Beginner'', ''5'', [], []], stmt_node_N3)"
  by (simp add: stmt_node_N3_def match_at_def pattern_defs DQ_def)

lemma stmt_node_N3_scan:
  "scan knowledge_node_pattern 0 (stmt_node_N3 @ s) = [''N3'', ''T'', ''d'', ''Beginner'', ''5'', [], []] # scan knowledge_node_pattern 0 s"
  "scan concept_pattern 0 (stmt_node_N3 @ s) = scan concept_pattern 0 s"
  "scan path_pattern 0 (stmt_node_N3 @ s) = scan path_pattern 0 s"
  "scan node_relationship_pattern 0 (stmt_node_N3 @ s) = scan node_relationship_pattern 0 s"
  "scan concept_node_pattern 0 (stmt_node_N3 @ s) = scan concept_node_pattern 0 s"
  "scan path_concept_pattern 0 (stmt_node_N3 @ s) = scan path_concept_pattern 0 s"
  "scan prereq_pattern 0 (stmt_node_N3 @ s) = scan prereq_pattern 0 s"
proof -
  show "scan knowledge_node_pattern 0 (stmt_node_N3 @ s) = [''N3'', ''T'', ''d'', ''Beginner'', ''5'', [], []] # scan knowledge_node_pattern 0 s"
    by (rule scan_match[OF stmt_node_N3_match]) (simp add: stmt_node_N3_def)
  show "scan concept_pattern 0 (stmt_node_N3 @ s) = scan concept_pattern 0 s"
    by (rule scan_passes) code_simp
  show "scan path_pattern 0 (stmt_node_N3 @ s) = scan path_pattern 0 s"
    by (rule scan_passes) code_simp
  show "scan node_relationship_pattern 0 (stmt_node_N3 @ s) = scan node_relationship_pattern 0 s"
    by (rule scan_passes) code_simp
  show "scan concept_node_pattern 0 (stmt_node_N3 @ s) = scan concept_node_pattern 0 s"
    by (rule scan_passes) code_simp
  show "scan path_concept_pattern 0 (stmt_node_N3 @ s) = scan path_concept_pattern 0 s"
    by (rule scan_passes) code_simp
  show "scan prereq_pattern 0 (stmt_node_N3 @ s) = scan prereq_pattern 0 s"
    by (rule scan_passes) code_simp
qed

lemma stmt_concept_1_match:
  "match_at concept_pattern (stmt_concept_1 @ s) = Some ([''CONCEPT-1'', ''A'', ''d'', ''30''], stmt_concept_1)"
  by (simp add: stmt_concept_1_def match_at_def pattern_defs DQ_def)

lemma stmt_concept_1_scan:
  "scan knowledge_node_pattern 0 (stmt_concept_1 @ s) = scan knowledge_node_pattern 0 s"
  "scan concept_pattern 0 (stmt_concept_1 @ s) = [''CONCEPT-1'', ''A'', ''d'', ''30''] # scan concept_pattern 0 s"
  "scan path_pattern 0 (stmt_concept_1 @ s) = scan path_pattern 0 s"
  "scan node_relationship_pattern 0 (stmt_concept_1 @ s) = scan node_relationship_pattern 0 s"
  "scan concept_node_pattern 0 (stmt_concept_1 @ s) = scan concept_node_pattern 0 s"
  "scan path_concept_pattern 0 (stmt_concept_1 @ s) = scan path_concept_pattern 0 s"
  "scan prereq_pattern 0 (stmt_concept_1 @ s) = scan prereq_pattern 0 s"
proof -
  show "scan knowledge_node_pattern 0 (stmt_concept_1 @ s) = scan knowledge_node_pattern 0 s"
    by (rule scan_passes) code_simp
  show "scan concept_pattern 0 (stmt_concept_1 @ s) = [''CONCEPT-1'', ''A'', ''d'', ''30''] # scan concept_pattern 0 s"
    by (rule scan_match[OF stmt_concept_1_match]) (simp add: stmt_concept_1_def)
  show "scan path_pattern 0 (stmt_concept_1 @ s) = scan path_pattern 0 s"
    by (rule scan_passes) code_simp
  show "scan node_relationship_pattern 0 (stmt_concept_1 @ s) = scan node_relationship_pattern 0 s"
    by (rule scan_passes) code_simp
  show "scan concept_node_pattern 0 (stmt_concept_1 @ s) = scan concept_node_pattern 0 s"
    by (rule scan_passes) code_simp
  show "scan path_concept_pattern 0 (stmt_concept_1 @ s) = scan path_concept_pattern 0 s"
    by (rule scan_passes) code_simp
  show "scan prereq_pattern 0 (stmt_concept_1 @ s) = scan prereq_pattern 0 s"
    by (rule scan_passes) code_simp
qed

lemma stmt_contains_N3_2_match:
  "match_at concept_node_pattern (stmt_contains_N3_2 @ s) = Some ([''CONCEPT-1'', ''N3'', ''2''], stmt_contains_N3_2)"
  by (simp add: stmt_contains_N3_2_def match_at_def pattern_defs DQ_def)

lemma stmt_contains_N3_2_scan:
  "scan knowledge_node_pattern 0 (stmt_contains_N3_2 @ s) = scan knowledge_node_pattern 0 s"
  "scan concept_pattern 0 (stmt_contains_N3_2 @ s) = scan concept_pattern 0 s"
  "scan path_pattern 0 (stmt_contains_N3_2 @ s) = scan path_pattern 0 s"
  "scan node_relationship_pattern 0 (stmt_contains_N3_2 @ s) = scan node_relationship_pattern 0 s"
  "scan concept_node_pattern 0 (stmt_contains_N3_2 @ s) = [''CONCEPT-1'', ''N3'', ''2''] # scan concept_node_pattern 0 s"
  "scan path_concept_pattern 0 (stmt_contains_N3_2 @ s) = scan path_concept_pattern 0 s"
  "scan prereq_pattern 0 (stmt_contains_N3_2 @ s) = scan prereq_pattern 0 s"
proof -
  show "scan knowledge_node_pattern 0 (stmt_contains_N3_2 @ s) = scan knowledge_node_pattern 0 s"
    by (rule scan_passes) code_simp
  show "scan concept_pattern 0 (stmt_contains_N3_2 @ s) = scan concept_pattern 0 s"
    by (rule scan_passes) code_simp
  show "scan path_pattern 0 (stmt_contains_N3_2 @ s) = scan path_pattern 0 s"
    by (rule scan_passes) code_simp
  show "scan node_relationship_pattern 0 (stmt_contains_N3_2 @ s) = scan node_relationship_pattern 0 s"
    by (rule scan_passes) code_simp
  show "scan concept_node_pattern 0 (stmt_contains_N3_2 @ s) = [''CONCEPT-1'', ''N3'', ''2''] # scan concept_node_pattern 0 s"
    by (rule scan_match[OF stmt_contains_N3_2_match]) (simp add: stmt_contains_N3_2_def)
  show "scan path_concept_pattern 0 (stmt_contains_N3_2 @ s) = scan path_concept_pattern 0 s"
    by (rule scan_passes) code_simp
  show "scan prereq_pattern 0 (stmt_contains_N3_2 @ s) = scan prereq_pattern 0 s"
    by (rule scan_passes) code_simp
qed

lemma stmt_contains_N1_0_match:
  "match_at concept_node_pattern (stmt_contains_N1_0 @ s) = Some ([''CONCEPT-1'', ''N1'', ''0''], stmt_contains_N1_0)"
  by (simp add: stmt_contains_N1_0_def match_at_def pattern_defs DQ_def)

lemma stmt_contains_N1_0_scan:
  "scan knowledge_node_pattern 0 (stmt_contains_N1_0 @ s) = scan knowledge_node_pattern 0 s"
  "scan concept_pattern 0 (stmt_contains_N1_0 @ s) = scan concept_pattern 0 s"
  "scan path_pattern 0 (stmt_contains_N1_0 @ s) = scan path_pattern 0 s"
  "scan node_relationship_pattern 0 (stmt_contains_N1_0 @ s) = scan node_relationship_pattern 0 s"
  "scan concept_node_pattern 0 (stmt_contains_N1_0 @ s) = [''CONCEPT-1'', ''N1'', ''0''] # scan concept_node_pattern 0 s"
  "scan path_concept_pattern 0 (stmt_contains_N1_0 @ s) = scan path_concept_pattern 0 s"
  "scan prereq_pattern 0 (stmt_contains_N1_0 @ s) = scan prereq_pattern 0 s"
proof -
  show "scan knowledge_node_pattern 0 (stmt_contains_N1_0 @ s) = scan knowledge_node_pattern 0 s"
    by (rule scan_passes) code_simp
  show "scan concept_pattern 0 (stmt_contains_N1_0 @ s) = scan concept_pattern 0 s"
    by (rule scan_passes) code_simp
  show "scan path_pattern 0 (stmt_contains_N1_0 @ s) = scan path_pattern 0 s"
    by (rule scan_passes) code_simp
  show "scan node_relationship_pattern 0 (stmt_contains_N1_0 @ s) = scan node_relationship_pattern 0 s"
    by (rule scan_passes) code_simp
  show "scan concept_node_pattern 0 (stmt_contains_N1_0 @ s) = [''CONCEPT-1'', ''N1'', ''0''] # scan concept_node_pattern 0 s"
    by (rule scan_match[OF stmt_contains_N1_0_match]) (simp add: stmt_contains_N1_0_def)
  show "scan path_concept_pattern 0 (stmt_contains_N1_0 @ s) = scan path_concept_pattern 0 s"
    by (rule scan_passes) code_simp
  show "scan prereq_pattern 0 (stmt_contains_N1_0 @ s) = scan prereq_pattern 0 s"
    by (rule scan_passes) code_simp
qed

lemma stmt_contains_N2_1_match:
  "match_at concept_node_pattern (stmt_contains_N2_1 @ s) = Some ([''CONCEPT-1'', ''N2'', ''1''], stmt_contains_N2_1)"
  by (simp add: stmt_contains_N2_1_def match_at_def pattern_defs DQ_def)

lemma stmt_contains_N2_1_scan:
  "scan knowledge_node_pattern 0 (stmt_contains_N2_1 @ s) = scan knowledge_node_pattern 0 s"
  "scan concept_pattern 0 (stmt_contains_N2_1 @ s) = scan concept_pattern 0 s"
  "scan path_pattern 0 (stmt_contains_N2_1 @ s) = scan path_pattern 0 s"
  "scan node_relationship_pattern 0 (stmt_contains_N2_1 @ s) = scan node_relationship_pattern 0 s"
  "scan concept_node_pattern 0 (stmt_contains_N2_1 @ s) = [''CONCEPT-1'', ''N2'', ''1''] # scan concept_node_pattern 0 s"
  "scan path_concept_pattern 0 (stmt_contains_N2_1 @ s) = scan path_concept_pattern 0 s"
  "scan prereq_pattern 0 (stmt_contains_N2_1 @ s) = scan prereq_pattern 0 s"
proof -
  show "scan knowledge_node_pattern 0 (stmt_contains_N2_1 @ s) = scan knowledge_node_pattern 0 s"
    by (rule scan_passes) code_simp
  show "scan concept_pattern 0 (stmt_contains_N2_1 @ s) = scan concept_pattern 0 s"
    by (rule scan_passes) code_simp
  show "scan path_pattern 0 (stmt_contains_N2_1 @ s) = scan path_pattern 0 s"
    by (rule scan_passes) code_simp
  show "scan node_relationship_pattern 0 (stmt_contains_N2_1 @ s) = scan node_relationship_pattern 0 s"
    by (rule scan_passes) code_simp
  show "scan concept_node_pattern 0 (stmt_contains_N2_1 @ s) = [''CONCEPT-1'', ''N2'', ''1''] # scan concept_node_pattern 0 s"
    by (rule scan_match[OF stmt_contains_N2_1_match]) (simp add: stmt_contains_N2_1_def)
  show "scan path_concept_pattern 0 (stmt_contains_N2_1 @ s) = scan path_concept_pattern 0 s"
    by (rule scan_passes) code_simp
  show "scan prereq_pattern 0 (stmt_contains_N2_1 @ s) = scan prereq_pattern 0 s"
    by (rule scan_passes) code_simp
qed

lemma stmt_contains_N1_5_match:
  "match_at concept_node_pattern (stmt_contains_N1_5 @ s) = Some ([''CONCEPT-1'', ''N1'', ''5''], stmt_contains_N1_5)"
  by (simp add: stmt_contains_N1_5_def match_at_def pattern_defs DQ_def)

lemma stmt_contains_N1_5_scan:
  "scan knowledge_node_pattern 0 (stmt_contains_N1_5 @ s) = scan knowledge_node_pattern 0 s"
  "scan concept_pattern 0 (stmt_contains_N1_5 @ s) = scan concept_pattern 0 s"
  "scan path_pattern 0 (stmt_contains_N1_5 @ s) = scan path_pattern 0 s"
  "scan node_relationship_pattern 0 (stmt_contains_N1_5 @ s) = scan node_relationship_pattern 0 s"
  "scan concept_node_pattern 0 (stmt_contains_N1_5 @ s) = [''CONCEPT-1'', ''N1'', ''5''] # scan concept_node_pattern 0 s"
  "scan path_concept_pattern 0 (stmt_contains_N1_5 @ s) = scan path_concept_pattern 0 s"
  "scan prereq_pattern 0 (stmt_contains_N1_5 @ s) = scan prereq_pattern 0 s"
proof -
  show "scan knowledge_node_pattern 0 (stmt_contains_N1_5 @ s) = scan knowledge_node_pattern 0 s"
    by (rule scan_passes) code_simp
  show "scan concept_pattern 0 (stmt_contains_N1_5 @ s) = scan concept_pattern 0 s"
    by (rule scan_passes) code_simp
  show "scan path_pattern 0 (stmt_contains_N1_5 @ s) = scan path_pattern 0 s"
    by (rule scan_passes) code_simp
  show "scan node_relationship_pattern 0 (stmt_contains_N1_5 @ s) = scan node_relationship_pattern 0 s"
    by (rule scan_passes) code_simp
  show "scan concept_node_pattern 0 (stmt_contains_N1_5 @ s) = [''CONCEPT-1'', ''N1'', ''5''] # scan concept_node_pattern 0 s"
    by (rule scan_match[OF stmt_contains_N1_5_match]) (simp add: stmt_contains_N1_5_def)
  show "scan path_concept_pattern 0 (stmt_contains_N1_5 @ s) = scan path_concept_pattern 0 s"
    by (rule scan_passes) code_simp
  show "scan prereq_pattern 0 (stmt_contains_N1_5 @ s) = scan prereq_pattern 0 s"
    by (rule scan_passes) code_simp
qed

lemma stmt_leads_to_N1_N3_match:
  "match_at node_relationship_pattern (stmt_leads_to_N1_N3 @ s) = Some ([''N1'', ''N3'', ''LEADS_TO'', ''3'', ''j''], stmt_leads_to_N1_N3)"
  by (simp add: stmt_leads_to_N1_N3_def match_at_def pattern_defs DQ_def)

lemma stmt_leads_to_N1_N3_scan:
  "scan knowledge_node_pattern 0 (stmt_leads_to_N1_N3 @ s) = scan knowledge_node_pattern 0 s"
  "scan concept_pattern 0 (stmt_leads_to_N1_N3 @ s) = scan concept_pattern 0 s"
  "scan path_pattern 0 (stmt_leads_to_N1_N3 @ s) = scan path_pattern 0 s"
  "scan node_relationship_pattern 0 (stmt_leads_to_N1_N3 @ s) = [''N1'', ''N3'', ''LEADS_TO'', ''3'', ''j''] # scan node_relationship_pattern 0 s"
  "scan concept_node_pattern 0 (stmt_leads_to_N1_N3 @ s) = scan concept_node_pattern 0 s"
  "scan path_concept_pattern 0 (stmt_leads_to_N1_N3 @ s) = scan path_concept_pattern 0 s"
  "scan prereq_pattern 0 (stmt_leads_to_N1_N3 @ s) = scan prereq_pattern 0 s"
proof -
  show "scan knowledge_node_pattern 0 (stmt_leads_to_N1_N3 @ s) = scan knowledge_node_pattern 0 s"
    by (rule scan_passes) code_simp
  show "scan concept_pattern 0 (stmt_leads_to_N1_N3 @ s) = scan concept_pattern 0 s"
    by (rule scan_passes) code_simp
  show "scan path_pattern 0 (stmt_leads_to_N1_N3 @ s) = scan path_pattern 0 s"
    by (rule scan_passes) code_simp
  show "scan node_relationship_pattern 0 (stmt_leads_to_N1_N3 @ s) = [''N1'', ''N3'', ''LEADS_TO'', ''3'', ''j''] # scan node_relationship_pattern 0 s"
    by (rule scan_match[OF stmt_leads_to_N1_N3_match]) (simp add: stmt_leads_to_N1_N3_def)
  show "scan concept_node_pattern 0 (stmt_leads_to_N1_N3 @ s) = scan concept_node_pattern 0 s"
    by (rule scan_passes) code_simp
  show "scan path_concept_pattern 0 (stmt_leads_to_N1_N3 @ s) = scan path_concept_pattern 0 s"
    by (rule scan_passes) code_simp
  show "scan prereq_pattern 0 (stmt_leads_to_N1_N3 @ s) = scan prereq_pattern 0 s"
    by (rule scan_passes) code_simp
qed

lemma stmt_requires_N1_N3_match:
  "match_at node_relationship_pattern (stmt_requires_N1_N3 @ s) = Some ([''N1'', ''N3'', ''REQUIRES'', ''5'', ''k''], stmt_requires_N1_N3)"
  by (simp add: stmt_requires_N1_N3_def match_at_def pattern_defs DQ_def)

lemma stmt_requires_N1_N3_scan:
  "scan knowledge_node_pattern 0 (stmt_requires_N1_N3 @ s) = scan knowledge_node_pattern 0 s"
  "scan concept_pattern 0 (stmt_requires_N1_N3 @ s) = scan concept_pattern 0 s"
  "scan path_pattern 0 (stmt_requires_N1_N3 @ s) = scan path_pattern 0 s"
  "scan node_relationship_pattern 0 (stmt_requires_N1_N3 @ s) = [''N1'', ''N3'', ''REQUIRES'', ''5'', ''k''] # scan node_relationship_pattern 0 s"
  "scan concept_node_pattern 0 (stmt_requires_N1_N3 @ s) = scan concept_node_pattern 0 s"
  "scan path_concept_pattern 0 (stmt_requires_N1_N3 @ s) = scan path_concept_pattern 0 s"
  "scan prereq_pattern 0 (stmt_requires_N1_N3 @ s) = scan prereq_pattern 0 s"
proof -
  show "scan knowledge_node_pattern 0 (stmt_requires_N1_N3 @ s) = scan knowledge_node_pattern 0 s"
    by (rule scan_passes) code_simp
  show "scan concept_pattern 0 (stmt_requires_N1_N3 @ s) = scan concept_pattern 0 s"
    by (rule scan_passes) code_simp
  show "scan path_pattern 0 (stmt_requires_N1_N3 @ s) = scan path_pattern 0 s"
    by (rule scan_passes) code_simp
  show "scan node_relationship_pattern 0 (stmt_requires_N1_N3 @ s) = [''N1'', ''N3'', ''REQUIRES'', ''5'', ''k''] # scan node_relationship_pattern 0 s"
    by (rule scan_match[OF stmt_requires_N1_N3_match]) (simp add: stmt_requires_N1_N3_def)
  show "scan concept_node_pattern 0 (stmt_requires_N1_N3 @ s) = scan concept_node_pattern 0 s"
    by (rule scan_passes) code_simp
  show "scan path_concept_pattern 0 (stmt_requires_N1_N3 @ s) = scan path_concept_pattern 0 s"
    by (rule scan_passes) code_simp
  show "scan prereq_pattern 0 (stmt_requires_N1_N3 @ s) = scan prereq_pattern 0 s"
    by (rule scan_passes) code_simp
qed

lemma stmt_requires_N1_N9_match:
  "match_at node_relationship_pattern (stmt_requires_N1_N9 @ s) = Some ([''N1'', ''N9'', ''REQUIRES'', ''4'', ''k''], stmt_requires_N1_N9)"
  by (simp add: stmt_requires_N1_N9_def match_at_def pattern_defs DQ_def)

lemma stmt_requires_N1_N9_scan:
  "scan knowledge_node_pattern 0 (stmt_requires_N1_N9 @ s) = scan knowledge_node_pattern 0 s"
  "scan concept_pattern 0 (stmt_requires_N1_N9 @ s) = scan concept_pattern 0 s"
  "scan path_pattern 0 (stmt_requires_N1_N9 @ s) = scan path_pattern 0 s"
  "scan node_relationship_pattern 0 (stmt_requires_N1_N9 @ s) = [''N1'', ''N9'', ''REQUIRES'', ''4'', ''k''] # scan node_relationship_pattern 0 s"
  "scan concept_node_pattern 0 (stmt_requires_N1_N9 @ s) = scan concept_node_pattern 0 s"
  "scan path_concept_pattern 0 (stmt_requires_N1_N9 @ s) = scan path_concept_pattern 0 s"
  "scan prereq_pattern 0 (stmt_requires_N1_N9 @ s) = scan prereq_pattern 0 s"
proof -
  show "scan knowledge_node_pattern 0 (stmt_requires_N1_N9 @ s) = scan knowledge_node_pattern 0 s"
    by (rule scan_passes) code_simp
  show "scan concept_pattern 0 (stmt_requires_N1_N9 @ s) = scan concept_pattern 0 s"
    by (rule scan_passes) code_simp
  show "scan path_pattern 0 (stmt_requires_N1_N9 @ s) = scan path_pattern 0 s"
    by (rule scan_passes) code_simp
  show "scan node_relationship_pattern 0 (stmt_requires_N1_N9 @ s) = [''N1'', ''N9'', ''REQUIRES'', ''4'', ''k''] # scan node_relationship_pattern 0 s"
    by (rule scan_match[OF stmt_requires_N1_N9_match]) (simp add: stmt_requires_N1_N9_def)
  show "scan concept_node_pattern 0 (stmt_requires_N1_N9 @ s) = scan concept_node_pattern 0 s"
    by (rule scan_passes) code_simp
  show "scan path_concept_pattern 0 (stmt_requires_N1_N9 @ s) = scan path_concept_pattern 0 s"
    by (rule scan_passes) code_simp
  show "scan prereq_pattern 0 (stmt_requires_N1_N9 @ s) = scan prereq_pattern 0 s"
    by (rule scan_passes) code_simp
qed

lemma stmt_unrecognized_scan:
  "scan knowledge_node_pattern 0 (stmt_unrecognized @ s) = scan knowledge_node_pattern 0 s"
  "scan concept_pattern 0 (stmt_unrecognized @ s) = scan concept_pattern 0 s"
  "scan path_pattern 0 (stmt_unrecognized @ s) = scan path_pattern 0 s"
  "scan node_relationship_pattern 0 (stmt_unrecognized @ s) = scan node_relationship_pattern 0 s"
  "scan concept_node_pattern 0 (stmt_unrecognized @ s) = scan concept_node_pattern 0 s"
  "scan path_concept_pattern 0 (stmt_unrecognized @ s) = scan path_concept_pattern 0 s"
  "scan prereq_pattern 0 (stmt_unrecognized @ s) = scan prereq_pattern 0 s"
proof -
  show "scan knowledge_node_pattern 0 (stmt_unrecognized @ s) = scan knowledge_node_pattern 0 s"
    by (rule scan_passes) code_simp
  show "scan concept_pattern 0 (stmt_unrecognized @ s) = scan concept_pattern 0 s"
    by (rule scan_passes) code_simp
  show "scan path_pattern 0 (stmt_unrecognized @ s) = scan path_pattern 0 s"
    by (rule scan_passes) code_simp
  show "scan node_relationship_pattern 0 (stmt_unrecognized @ s) = scan node_relationship_pattern 0 s"
    by (rule scan_passes) code_simp
  show "scan concept_node_pattern 0 (stmt_unrecognized @ s) = scan concept_node_pattern 0 s"
    by (rule scan_passes) code_simp
  show "scan path_concept_pattern 0 (stmt_unrecognized @ s) = scan path_concept_pattern 0 s"
    by (rule scan_passes) code_simp
  show "scan prereq_pattern 0 (stmt_unrecognized @ s) = scan prereq_pattern 0 s"
    by (rule scan_passes) code_simp
qed

lemmas stmt_scans = stmt_node_N1_scan stmt_node_N2_scan stmt_node_N3_scan stmt_concept_1_scan stmt_contains_N3_2_scan stmt_contains_N1_0_scan stmt_contains_N2_1_scan stmt_contains_N1_5_scan stmt_leads_to_N1_N3_scan stmt_requires_N1_N3_scan stmt_requires_N1_N9_scan stmt_unrecognized_scan scan_ends

section \<open>The example scripts parsed\<close>

lemma script_concept_only_matches:
  "finditer knowledge_node_pattern script_concept_only =
     []"
  "finditer concept_pattern script_concept_only =
     [[''CONCEPT-1'', ''A'', ''d'', ''30'']]"
  "finditer path_pattern script_concept_only =
     []"
  "finditer node_relationship_pattern script_concept_only =
     []"
  "finditer concept_node_pattern script_concept_only =
     []"
  "finditer path_concept_pattern script_concept_only =
     []"
  "finditer prereq_pattern script_concept_only =
     []"
  by (simp_all only: finditer_def script_concept_only_def concat.simps stmt_scans)

lemma script_concept_only_parse: "parse_cypher_file script_concept_only = Inr model_concept_only"
  unfolding parse_cypher_file_def script_concept_only_matches by code_simp

lemma script_sequence_matches:
  "finditer knowledge_node_pattern script_sequence =
     [[''N1'', ''T'', ''d'', ''Beginner'', ''5'', [], []],
      [''N2'', ''T'', ''d'', ''Beginner'', ''5'', [], []],
      [''N3'', ''T'', ''d'', ''Beginner'', ''5'', [], []]]"
  "finditer concept_pattern script_sequence =
     [[''CONCEPT-1'', ''A'', ''d'', ''30'']]"
  "finditer path_pattern script_sequence =
     []"
  "finditer node_relationship_pattern script_sequence =
     []"
  "finditer concept_node_pattern script_sequence =
     [[''CONCEPT-1'', ''N3'', ''2''],
      [''CONCEPT-1'', ''N1'', ''0''],
      [''CONCEPT-1'', ''N2'', ''1'']]"
  "finditer path_concept_pattern script_sequence =
     []"
  "finditer prereq_pattern script_sequence =
     []"
  by (simp_all only: finditer_def script_sequence_def concat.simps stmt_scans)

lemma script_sequence_parse: "parse_cypher_file script_sequence = Inr model_sequence"
  unfolding parse_cypher_file_def script_sequence_matches by code_simp

lemma script_repeated_matches:
  "finditer knowledge_node_pattern script_repeated =
     [[''N1'', ''T'', ''d'', ''Beginner'', ''5'', [], []],
      [''N2'', ''T'', ''d'', ''Beginner'', ''5'', [], []]]"
  "finditer concept_pattern script_repeated =
     [[''CONCEPT-1'', ''A'', ''d'', ''30'']]"
  "finditer path_pattern script_repeated =
     []"
  "finditer node_relationship_pattern script_repeated =
     []"
  "finditer concept_node_pattern script_repeated =
     [[''CONCEPT-1'', ''N1'', ''0''],
      [''CONCEPT-1'', ''N2'', ''1''],
      [''CONCEPT-1'', ''N1'', ''5'']]"
  "finditer path_concept_pattern script_repeated =
     []"
  "finditer prereq_pattern script_repeated =
     []"
  by (simp_all only: finditer_def script_repeated_def concat.simps stmt_scans)

lemma script_repeated_parse: "parse_cypher_file script_repeated = Inr model_repeated"
  unfolding parse_cypher_file_def script_repeated_matches by code_simp



lemma script_dangling_matches:
  "finditer knowledge_node_pattern script_dangling =
     [[''N1'', ''T'', ''d'', ''Beginner'', ''5'', [], []],
      [''N3'', ''T'', ''d'', ''Beginner'', ''5'', [], []]]"
  "finditer concept_pattern script_dangling =
     []"
  "finditer path_pattern script_dangling =
     []"
  "finditer node_relationship_pattern script_dangling =
     [[''N1'', ''N3'', ''LEADS_TO'', ''3'', ''j''],
      [''N1'', ''N9'', ''REQUIRES'', ''4'', ''k'']]"
  "finditer concept_node_pattern script_dangling =
     []"
  "finditer path_concept_pattern script_dangling =
     []"
  "finditer prereq_pattern script_dangling =
     []"
  by (simp_all only: finditer_def script_dangling_def concat.simps stmt_scans)

lemma script_dangling_parse: "parse_cypher_file script_dangling = Inr model_dangling"
  unfolding parse_cypher_file_def script_dangling_matches by code_simp

lemma script_two_kinds_matches:
  "finditer knowledge_node_pattern script_two_kinds =
     [[''N1'', ''T'', ''d'', ''Beginner'', ''5'', [], []],
      [''N3'', ''T'', ''d'', ''Beginner'', ''5'', [], []]]"
  "finditer concept_pattern script_two_kinds =
     []"
  "finditer path_pattern script_two_kinds =
     []"
  "finditer node_relationship_pattern script_two_kinds =
     [[''N1'', ''N3'', ''LEADS_TO'', ''3'', ''j''],
      [''N1'', ''N3'', ''REQUIRES'', ''5'', ''k'']]"
  "finditer concept_node_pattern script_two_kinds =
     []"
  "finditer path_concept_pattern script_two_kinds =
     []"
  "finditer prereq_pattern script_two_kinds =
     []"
  by (simp_all only: finditer_def script_two_kinds_def concat.simps stmt_scans)

lemma script_two_kinds_parse: "parse_cypher_file script_two_kinds = Inr model_two_kinds"
  unfolding parse_cypher_file_def script_two_kinds_matches by code_simp

lemma script_unrecognized_matches:
  "finditer knowledge_node_pattern script_unrecognized =
     []"
  "finditer concept_pattern script_unrecognized =
     []"
  "finditer path_pattern script_unrecognized =
     []"
  "finditer node_relationship_pattern script_unrecognized =
     []"
  "finditer concept_node_pattern script_unrecognized =
     []"
  "finditer path_concept_pattern script_unrecognized =
     []"
  "finditer prereq_pattern script_unrecognized =
     []"
  by (simp_all only: finditer_def script_unrecognized_def concat.simps stmt_scans)

lemma script_unrecognized_parse: "parse_cypher_file script_unrecognized = Inr model_unrecognized"
  unfolding parse_cypher_file_def script_unrecognized_matches by code_simp

section \<open>A CONTAINS statement with any digits as its sequence number\<close>

text \<open>
  The statement is recognized whatever the digits are: the group \<^verbatim>\<open>(\d+)\<close> takes all of
  them, and the other patterns find nothing in the statement.
\<close>

lemma rep_splits_run:
  assumes "list_all (in_cls c) ds" "\<not> in_cls c y"
  shows "\<exists>rest. rep_splits c (ds @ y # r) = (ds, y # r) # rest"
  using assms
proof (induction ds)
  case Nil
  then show ?case by simp
next
  case (Cons d ds)
  then obtain rest where "rep_splits c (ds @ y # r) = (ds, y # r) # rest"
    by auto
  then show ?case
    using Cons.prems by simp
qed

lemma starts_other_chars: "x \<notin> set u \<Longrightarrow> \<not> starts (x # l) u"
  by (induction u) auto

lemma contains_with_sequence_match:
  assumes "digits ds"
  shows "match_at concept_node_pattern (contains_with_sequence ds @ s)
           = Some ([''CONCEPT-1'', ''N1'', ds], contains_with_sequence ds)"
proof -
  have ds: "ds \<noteq> []" "list_all (in_cls Digit) ds"
    using assms by (simp_all add: digits_def)
  have "\<not> in_cls Digit CHR ''}''"
    by simp
  from rep_splits_run[OF ds(2) this, of "'']->(n);'' @ s"]
  obtain rest where run: "rep_splits Digit (ds @ CHR ''}'' # '']->(n);'' @ s) = (ds, CHR ''}'' # '']->(n);'' @ s) # rest"
    by blast
  show ?thesis
    using ds(1) run
    by (simp add: contains_with_sequence_def contains_before_sequence_def contains_after_sequence_def
        match_at_def pattern_defs DQ_def)
qed

lemma digits_no_letter:
  assumes "digits ds" "\<not> in_cls Digit x"
  shows "\<not> starts (x # l) ds"
proof (rule starts_other_chars)
  show "x \<notin> set ds"
    using assms by (auto simp: digits_def list_all_iff)
qed

lemma contains_with_sequence_passes:
  assumes "digits ds"
  shows "scan knowledge_node_pattern 0 (contains_with_sequence ds @ s) = scan knowledge_node_pattern 0 s"
    and "scan concept_pattern 0 (contains_with_sequence ds @ s) = scan concept_pattern 0 s"
    and "scan path_pattern 0 (contains_with_sequence ds @ s) = scan path_pattern 0 s"
    and "scan node_relationship_pattern 0 (contains_with_sequence ds @ s) = scan node_relationship_pattern 0 s"
    and "scan path_concept_pattern 0 (contains_with_sequence ds @ s) = scan path_concept_pattern 0 s"
    and "scan prereq_pattern 0 (contains_with_sequence ds @ s) = scan prereq_pattern 0 s"
proof -
  have C: "\<not> starts (CHR ''C'' # l) ds" and M: "\<not> starts (CHR ''M'' # l) ds" for l
    by (rule digits_no_letter[OF assms], simp)+
  have split: "contains_with_sequence ds @ s = contains_before_sequence @ ds @ contains_after_sequence @ s"
    by (simp add: contains_with_sequence_def)
  have "scan knowledge_node_pattern 0 (contains_before_sequence @ ds @ contains_after_sequence @ s)
      = scan knowledge_node_pattern 0 (ds @ contains_after_sequence @ s)"
    by (rule scan_passes) code_simp
  also have "\<dots> = scan knowledge_node_pattern 0 (contains_after_sequence @ s)"
    by (rule scan_passes) (simp add: C)
  also have "\<dots> = scan knowledge_node_pattern 0 s"
    by (rule scan_passes) code_simp
  finally show "scan knowledge_node_pattern 0 (contains_with_sequence ds @ s) = scan knowledge_node_pattern 0 s"
    unfolding split .
  have "scan concept_pattern 0 (contains_before_sequence @ ds @ contains_after_sequence @ s)
      = scan concept_pattern 0 (ds @ contains_after_sequence @ s)"
    by (rule scan_passes) code_simp
  also have "\<dots> = scan concept_pattern 0 (contains_after_sequence @ s)"
    by (rule scan_passes) (simp add: C)
  also have "\<dots> = scan concept_pattern 0 s"
    by (rule scan_passes) code_simp
  finally show "scan concept_pattern 0 (contains_with_sequence ds @ s) = scan concept_pattern 0 s"
    unfolding split .
  have "scan path_pattern 0 (contains_before_sequence @ ds @ contains_after_sequence @ s)
      = scan path_pattern 0 (ds @ contains_after_sequence @ s)"
    by (rule scan_passes) code_simp
  also have "\<dots> = scan path_pattern 0 (contains_after_sequence @ s)"
    by (rule scan_passes) (simp add: C)
  also have "\<dots> = scan path_pattern 0 s"
    by (rule scan_passes) code_simp
  finally show "scan path_pattern 0 (contains_with_sequence ds @ s) = scan path_pattern 0 s"
    unfolding split .
  have "scan node_relationship_pattern 0 (contains_before_sequence @ ds @ contains_after_sequence @ s)
      = scan node_relationship_pattern 0 (ds @ contains_after_sequence @ s)"
    by (rule scan_passes) code_simp
  also have "\<dots> = scan node_relationship_pattern 0 (contains_after_sequence @ s)"
    by (rule scan_passes) (simp add: M)
  also have "\<dots> = scan node_relationship_pattern 0 s"
    by (rule scan_passes) code_simp
  finally show "scan node_relationship_pattern 0 (contains_with_sequence ds @ s) = scan node_relationship_pattern 0 s"
    unfolding split .
  have "scan path_concept_pattern 0 (contains_before_sequence @ ds @ contains_after_sequence @ s)
      = scan path_concept_pattern 0 (ds @ contains_after_sequence @ s)"
    by (rule scan_passes) code_simp
  also have "\<dots> = scan path_concept_pattern 0 (contains_after_sequence @ s)"
    by (rule scan_passes) (simp add: M)
  also have "\<dots> = scan path_concept_pattern 0 s"
    by (rule scan_passes) code_simp
  finally show "scan path_concept_pattern 0 (contains_with_sequence ds @ s) = scan path_concept_pattern 0 s"
    unfolding split .
  have "scan prereq_pattern 0 (contains_before_sequence @ ds @ contains_after_sequence @ s)
      = scan prereq_pattern 0 (ds @ contains_after_sequence @ s)"
    by (rule scan_passes) code_simp
  also have "\<dots> = scan prereq_pattern 0 (contains_after_sequence @ s)"
    by (rule scan_passes) (simp add: M)
  also have "\<dots> = scan prereq_pattern 0 s"
    by (rule scan_passes) code_simp
  finally show "scan prereq_pattern 0 (contains_with_sequence ds @ s) = scan prereq_pattern 0 s"
    unfolding split .
qed

lemma contains_with_sequence_matches:
  assumes "digits ds"
  shows "finditer knowledge_node_pattern (contains_with_sequence ds) = []"
    and "finditer concept_pattern (contains_with_sequence ds) = []"
    and "finditer path_pattern (contains_with_sequence ds) = []"
    and "finditer node_relationship_pattern (contains_with_sequence ds) = []"
    and "finditer path_concept_pattern (contains_with_sequence ds) = []"
    and "finditer prereq_pattern (contains_with_sequence ds) = []"
    and "finditer concept_node_pattern (contains_with_sequence ds) = [[''CONCEPT-1'', ''N1'', ds]]"
proof -
  show "finditer knowledge_node_pattern (contains_with_sequence ds) = []"
    "finditer concept_pattern (contains_with_sequence ds) = []"
    "finditer path_pattern (contains_with_sequence ds) = []"
    "finditer node_relationship_pattern (contains_with_sequence ds) = []"
    "finditer path_concept_pattern (contains_with_sequence ds) = []"
    "finditer prereq_pattern (contains_with_sequence ds) = []"
    by (simp_all only: finditer_def
          contains_with_sequence_passes[OF assms, of "[]", unfolded scan_ends append_Nil2])
  have "contains_with_sequence ds \<noteq> []"
    by (simp add: contains_with_sequence_def contains_after_sequence_def)
  note scan_match[OF contains_with_sequence_match[OF assms] this, of "[]", unfolded scan_ends append_Nil2]
  then show "finditer concept_node_pattern (contains_with_sequence ds) = [[''CONCEPT-1'', ''N1'', ds]]"
    by (simp only: finditer_def)
qed

lemma contains_with_sequence_fields:
  assumes "digits ds"
  shows "numeric_fields (contains_with_sequence ds) = [ds]"
  by (simp add: numeric_fields_def contains_with_sequence_matches[OF assms])

lemma contains_with_long_sequence:
  assumes "digits ds" "\<not> short ds"
  shows "parse_cypher_file (contains_with_sequence ds) = Inl ValueError"
proof -
  have "py_int ds = Inl ValueError"
    using assms by (simp add: py_int_digits short_def)
  then show ?thesis
    unfolding parse_cypher_file_def contains_with_sequence_matches[OF assms(1)]
    by (simp add: bind_def try_fold.simps)
qed

lemma digits_replicate: "0 < n \<Longrightarrow> in_cls Digit c \<Longrightarrow> digits (replicate n c)"
  by (simp add: digits_def list_all_iff)

section \<open>Results on the subgraph selector\<close>

text \<open>
  C1. The claim: with seeds and a hop radius \<open>k > 0\<close> and no type filter, the selected nodes
  are exactly the nodes within \<open>k\<close> hops of a seed, a hop following an edge in either
  direction. The code runs \<open>k\<close> passes along successors and then \<open>k\<close> passes along
  predecessors that start from the successors found. On the graph with the edges
  \<open>a \<rightarrow> b\<close> and \<open>c \<rightarrow> b\<close>, seed \<open>a\<close> and radius 1, it selects \<open>c\<close>, which is two hops
  from \<open>a\<close>; on the graph with the edges \<open>b \<rightarrow> a\<close> and \<open>b \<rightarrow> c\<close>, seed \<open>a\<close> and radius 2,
  it leaves out \<open>c\<close>, which is two hops from \<open>a\<close>.
\<close>

theorem C1_expansion_is_not_hop_ball:
  "nodes_to_include (add_edge ''c'' ''b'' [] (add_edge ''a'' ''b'' [] DiGraph)) None (Some [''a'']) 1
     = {''a'', ''b'', ''c''}
   \<and> within_hops (add_edge ''c'' ''b'' [] (add_edge ''a'' ''b'' [] DiGraph)) {''a''} 1
     = {''a'', ''b''}
   \<and> nodes_to_include (add_edge ''b'' ''c'' [] (add_edge ''b'' ''a'' [] DiGraph)) None (Some [''a'']) 2
     = {''a'', ''b''}
   \<and> within_hops (add_edge ''b'' ''c'' [] (add_edge ''b'' ''a'' [] DiGraph)) {''a''} 2
     = {''a'', ''b'', ''c''}"
  by code_simp


text \<open>
  C6. For every graph, seed list and filters, and hop radii \<open>0 \<le> r1 \<le> r2\<close>, the nodes
  selected with radius \<open>r1\<close> are among the nodes selected with radius \<open>r2\<close>.
\<close>

theorem C6_hop_radius_monotone:
  assumes "wf_digraph G" and "0 \<le> r1" and "r1 \<le> r2"
  shows "node_ids (select_subgraph G ft S fr r1) \<subseteq> node_ids (select_subgraph G ft S fr r2)"
  using assms(1,3) by (simp add: node_ids_select_subgraph nodes_to_include_mono)

theorem C6_hop_radius_monotone_witness:
  "wf_digraph (add_edge ''b'' ''c'' [] (add_edge ''a'' ''b'' [] DiGraph)) \<and> (0::int) \<le> 1 \<and> (1::int) \<le> 2 \<and>
   node_ids (select_subgraph (add_edge ''b'' ''c'' [] (add_edge ''a'' ''b'' [] DiGraph)) None (Some [''a'']) None 1)
     \<subseteq> node_ids (select_subgraph (add_edge ''b'' ''c'' [] (add_edge ''a'' ''b'' [] DiGraph)) None (Some [''a'']) None 2)"
proof -
  have wf: "wf_digraph (add_edge ''b'' ''c'' [] (add_edge ''a'' ''b'' [] DiGraph))"
    by code_simp
  have r1: "(0::int) \<le> 1" and r2: "(1::int) \<le> 2"
    by simp_all
  show ?thesis
    by (intro conjI wf r1 r2 C6_hop_radius_monotone[OF wf r1 r2])
qed


text \<open>
  C7. With only the type filter \<^verbatim>\<open>["KnowledgeNode"]\<close> (no seeds, no relation filter) the
  selected nodes are exactly the nodes of that kind and the selected edges are exactly the
  edges of the graph between two such nodes. For all filters, an edge of the graph is
  kept if and only if both its end points are selected and the relation filter is absent
  or contains the edge's relation.
\<close>

theorem C7_type_filter_and_edge_rule:
  assumes "wf_digraph G"
  shows "node_ids (select_subgraph G (Some [''KnowledgeNode'']) None None k)
           = nodes_of_type G ''KnowledgeNode''
       \<and> edge_keys (select_subgraph G (Some [''KnowledgeNode'']) None None k)
           = {(u, v) \<in> edge_keys G. u \<in> nodes_of_type G ''KnowledgeNode'' \<and>
                                      v \<in> nodes_of_type G ''KnowledgeNode''}
       \<and> (\<forall>((u, v), data) \<in> set (g_adj G).
            (u, v) \<in> edge_keys (select_subgraph G ft ids fr k') \<longleftrightarrow>
              u \<in> node_ids (select_subgraph G ft ids fr k') \<and>
              v \<in> node_ids (select_subgraph G ft ids fr k') \<and>
              (\<not> truthy fr \<or> get_in data ''relation'' fr))"
proof (intro conjI)
  have N: "nodes_to_include G (Some [''KnowledgeNode'']) None k = nodes_of_type G ''KnowledgeNode''"
    by (simp add: nodes_to_include_types_only get_in_singleton nodes_of_type_def)
  show "node_ids (select_subgraph G (Some [''KnowledgeNode'']) None None k)
           = nodes_of_type G ''KnowledgeNode''"
    by (simp add: node_ids_select_subgraph[OF assms] N)
  show "edge_keys (select_subgraph G (Some [''KnowledgeNode'']) None None k)
           = {(u, v) \<in> edge_keys G. u \<in> nodes_of_type G ''KnowledgeNode'' \<and>
                                      v \<in> nodes_of_type G ''KnowledgeNode''}"
  proof -
    have "edge_keys (select_subgraph G (Some [''KnowledgeNode'']) None None k)
        = fst ` {e \<in> set (g_adj G). fst (fst e) \<in> nodes_of_type G ''KnowledgeNode'' \<and>
                     snd (fst e) \<in> nodes_of_type G ''KnowledgeNode''}"
      unfolding edge_keys_select_subgraph N by simp
    also have "\<dots> = {(u, v) \<in> edge_keys G. u \<in> nodes_of_type G ''KnowledgeNode'' \<and>
                                      v \<in> nodes_of_type G ''KnowledgeNode''}"
      unfolding edge_keys_def by force
    finally show ?thesis .
  qed
  show "\<forall>((u, v), data) \<in> set (g_adj G).
            (u, v) \<in> edge_keys (select_subgraph G ft ids fr k') \<longleftrightarrow>
              u \<in> node_ids (select_subgraph G ft ids fr k') \<and>
              v \<in> node_ids (select_subgraph G ft ids fr k') \<and>
              (\<not> truthy fr \<or> get_in data ''relation'' fr)"
    using kept_edge_iff[OF assms] by blast
qed


theorem C7_type_filter_and_edge_rule_witness:
  "wf_digraph example_graph
   \<and> node_ids (select_subgraph example_graph (Some [''KnowledgeNode'']) None None 0) = {''N1'', ''N2''}
   \<and> edge_keys (select_subgraph example_graph (Some [''KnowledgeNode'']) None None 0) = {(''N1'', ''N2'')}
   \<and> ((''CONCEPT-1'', ''N1''), [(''relation'', PStr ''CONTAINS''), (''sequence'', PInt 1)])
        \<in> set (g_adj example_graph)
   \<and> ''CONCEPT-1'' \<in> node_ids (select_subgraph example_graph None None (Some [''REQUIRES'']) 0)
   \<and> ''N1'' \<in> node_ids (select_subgraph example_graph None None (Some [''REQUIRES'']) 0)
   \<and> (''CONCEPT-1'', ''N1'') \<notin> edge_keys (select_subgraph example_graph None None (Some [''REQUIRES'']) 0)"
proof -
  have wf: "wf_digraph example_graph"
    by code_simp
  have types: "nodes_of_type example_graph ''KnowledgeNode'' = {''N1'', ''N2''}"
    by code_simp
  have edges: "{(u, v) \<in> edge_keys example_graph. u \<in> {''N1'', ''N2''} \<and> v \<in> {''N1'', ''N2''}}
                 = {(''N1'', ''N2'')}"
    by code_simp
  have mem: "((''CONCEPT-1'', ''N1''), [(''relation'', PStr ''CONTAINS''), (''sequence'', PInt 1)])
               \<in> set (g_adj example_graph)"
    by code_simp
  have c: "''CONCEPT-1'' \<in> node_ids (select_subgraph example_graph None None (Some [''REQUIRES'']) 0)"
    and n: "''N1'' \<in> node_ids (select_subgraph example_graph None None (Some [''REQUIRES'']) 0)"
    by code_simp+
  have rel: "\<not> (\<not> truthy (Some [''REQUIRES'']) \<or>
                get_in [(''relation'', PStr ''CONTAINS''), (''sequence'', PInt 1)] ''relation'' (Some [''REQUIRES'']))"
    by code_simp
  note T = C7_type_filter_and_edge_rule[OF wf, of 0 None None "Some [''REQUIRES'']" 0]
  have dropped: "(''CONCEPT-1'', ''N1'') \<notin> edge_keys (select_subgraph example_graph None None (Some [''REQUIRES'']) 0)"
    using T mem rel by blast
  show ?thesis
    using T wf mem c n dropped unfolding types edges by blast
qed


section \<open>Results on the graph builder\<close>

text \<open>
  C2. The claim: in the built graph, edges with the same source and target and different
  relation kinds coexist as distinct edges, and adding a relationship of one kind does
  not replace an edge of another kind between the same two nodes. The builder's graph is
  a \<^verbatim>\<open>DiGraph\<close>, which holds one attribute dictionary per ordered pair of nodes, and
  \<^verbatim>\<open>add_edge\<close> on a pair that has an edge overwrites the attributes given. The script with
  the knowledge nodes \<^verbatim>\<open>N1\<close> and \<^verbatim>\<open>N3\<close> and the relationships \<^verbatim>\<open>N1 -LEADS_TO-> N3\<close> and then
  \<^verbatim>\<open>N1 -REQUIRES-> N3\<close> parses to a model with both relationships, and the graph built of
  it has the single edge \<^verbatim>\<open>(N1, N3)\<close>, of kind \<^verbatim>\<open>REQUIRES\<close>: the edge of kind \<^verbatim>\<open>LEADS_TO\<close>
  is replaced.
\<close>

theorem C2_second_kind_replaces_first:
  "parse_cypher_file script_two_kinds = Inr model_two_kinds
   \<and> gd_relationships model_two_kinds
       = [example_relationship ''N3'' ''LEADS_TO'' 3 ''j'', example_relationship ''N3'' ''REQUIRES'' 5 ''k'']
   \<and> g_adj (build_networkx_graph model_two_kinds)
       = [((''N1'', ''N3''),
           [(''relation'', PStr ''REQUIRES''), (''strength'', PInt 5), (''justification'', PStr ''k'')])]
   \<and> edge_attr (build_networkx_graph model_two_kinds) ''N1'' ''N3'' ''relation'' \<noteq> Some (PStr ''LEADS_TO'')"
proof -
  have "gd_relationships model_two_kinds
       = [example_relationship ''N3'' ''LEADS_TO'' 3 ''j'', example_relationship ''N3'' ''REQUIRES'' 5 ''k'']"
    by (simp add: model_two_kinds_def)
  moreover have "g_adj (build_networkx_graph model_two_kinds)
       = [((''N1'', ''N3''),
           [(''relation'', PStr ''REQUIRES''), (''strength'', PInt 5), (''justification'', PStr ''k'')])]"
    by code_simp
  moreover have "edge_attr (build_networkx_graph model_two_kinds) ''N1'' ''N3'' ''relation'' \<noteq> Some (PStr ''LEADS_TO'')"
    by code_simp
  ultimately show ?thesis
    using script_two_kinds_parse by (intro conjI)
qed

text \<open>
  C2, as the code has it. The built graph has at most one edge per ordered pair
  (source, target), whatever the kinds; and for a relationship of the model between two
  nodes of the graph that no later relationship of the model joins again, the edge of
  the pair carries the kind, the strength and the justification of that relationship:
  the last relationship of a pair wins. This holds for every model with the shape of a
  parsed model (\<open>wf_model\<close>, which \<open>parse_wf_model\<close> shows of every result of the parser).
\<close>

theorem C2_one_edge_per_pair_last_kind_wins:
  assumes "wf_model m"
    and "gd_relationships m = rs1 @ r # rs2"
    and "r_source r \<in> entity_ids m" and "r_target r \<in> entity_ids m"
    and "\<forall>r' \<in> set rs2. (r_source r', r_target r') \<noteq> (r_source r, r_target r)"
  shows "distinct (map fst (g_adj (build_networkx_graph m)))
       \<and> edge_attr (build_networkx_graph m) (r_source r) (r_target r) ''relation''
           = Some (PStr (r_type r))
       \<and> edge_attr (build_networkx_graph m) (r_source r) (r_target r) ''strength''
           = Some (PInt (r_strength r))
       \<and> edge_attr (build_networkx_graph m) (r_source r) (r_target r) ''justification''
           = Some (PStr (r_justification r))"
  using build_distinct_edges[of m] build_relationship_last[OF assms] by simp

theorem C2_one_edge_per_pair_last_kind_wins_witness:
  "wf_model model_two_kinds
   \<and> gd_relationships model_two_kinds
       = [example_relationship ''N3'' ''LEADS_TO'' 3 ''j''] @ example_relationship ''N3'' ''REQUIRES'' 5 ''k'' # []
   \<and> ''N1'' \<in> entity_ids model_two_kinds \<and> ''N3'' \<in> entity_ids model_two_kinds
   \<and> distinct (map fst (g_adj (build_networkx_graph model_two_kinds)))
   \<and> edge_attr (build_networkx_graph model_two_kinds) ''N1'' ''N3'' ''relation'' = Some (PStr ''REQUIRES'')
   \<and> edge_attr (build_networkx_graph model_two_kinds) ''N1'' ''N3'' ''strength'' = Some (PInt 5)
   \<and> edge_attr (build_networkx_graph model_two_kinds) ''N1'' ''N3'' ''justification'' = Some (PStr ''k'')"
proof -
  have wf: "wf_model model_two_kinds"
    by (rule parse_wf_model[OF script_two_kinds_parse])
  have rs: "gd_relationships model_two_kinds
       = [example_relationship ''N3'' ''LEADS_TO'' 3 ''j''] @ example_relationship ''N3'' ''REQUIRES'' 5 ''k'' # []"
    by (simp add: model_two_kinds_def)
  have src: "r_source (example_relationship ''N3'' ''REQUIRES'' 5 ''k'') \<in> entity_ids model_two_kinds"
    and tgt: "r_target (example_relationship ''N3'' ''REQUIRES'' 5 ''k'') \<in> entity_ids model_two_kinds"
    by code_simp+
  have last: "\<forall>r' \<in> set []. (r_source r', r_target r') \<noteq>
      (r_source (example_relationship ''N3'' ''REQUIRES'' 5 ''k''),
       r_target (example_relationship ''N3'' ''REQUIRES'' 5 ''k''))"
    by simp
  have sel: "r_source (example_relationship ''N3'' ''REQUIRES'' 5 ''k'') = ''N1''"
    "r_target (example_relationship ''N3'' ''REQUIRES'' 5 ''k'') = ''N3''"
    "r_type (example_relationship ''N3'' ''REQUIRES'' 5 ''k'') = ''REQUIRES''"
    "r_strength (example_relationship ''N3'' ''REQUIRES'' 5 ''k'') = 5"
    "r_justification (example_relationship ''N3'' ''REQUIRES'' 5 ''k'') = ''k''"
    by (simp_all add: example_relationship_def)
  show ?thesis
    using C2_one_edge_per_pair_last_kind_wins[OF wf rs src tgt last] wf rs src tgt
    unfolding sel by blast
qed

text \<open>
  C5. For every parsed model: the raw relationship list holds one relationship for every
  recognized relationship statement, in statement order, whether or not its end points
  exist; the nodes of the built graph are the entities of the model, and every edge of
  the built graph has both end points among them; a relationship with an end point
  that is no node of the graph adds no edge, and the graph is the one built without
  that relationship. The builder is a total function: it raises no error.
\<close>

theorem C5_dangling_relationship_kept_in_list_and_dropped_from_graph:
  assumes "parse_cypher_file text = Inr m"
  shows "map (\<lambda>r. (r_source r, r_target r, r_type r)) (gd_relationships m) =
           map (\<lambda>caps. (caps ! 0, caps ! 1, caps ! 2)) (finditer node_relationship_pattern text) @
           map (\<lambda>caps. (caps ! 0, caps ! 1, ''PREREQUISITE_FOR'')) (finditer prereq_pattern text)
       \<and> node_ids (build_networkx_graph m) = entity_ids m
       \<and> (\<forall>(u, v) \<in> edge_keys (build_networkx_graph m).
             u \<in> node_ids (build_networkx_graph m) \<and> v \<in> node_ids (build_networkx_graph m))
       \<and> (\<forall>rs1 r rs2.
             gd_relationships m = rs1 @ r # rs2 \<and>
             (r_source r \<notin> node_ids (build_networkx_graph m) \<or>
              r_target r \<notin> node_ids (build_networkx_graph m)) \<longrightarrow>
             (r_source r, r_target r) \<notin> edge_keys (build_networkx_graph m) \<and>
             build_networkx_graph m = build_networkx_graph (m\<lparr>gd_relationships := rs1 @ rs2\<rparr>))"
proof (intro conjI allI impI)
  show "map (\<lambda>r. (r_source r, r_target r, r_type r)) (gd_relationships m) =
           map (\<lambda>caps. (caps ! 0, caps ! 1, caps ! 2)) (finditer node_relationship_pattern text) @
           map (\<lambda>caps. (caps ! 0, caps ! 1, ''PREREQUISITE_FOR'')) (finditer prereq_pattern text)"
    by (rule parsed_relationships[OF assms])
  show "node_ids (build_networkx_graph m) = entity_ids m"
    by (rule build_nodes)
  show "\<forall>(u, v) \<in> edge_keys (build_networkx_graph m).
             u \<in> node_ids (build_networkx_graph m) \<and> v \<in> node_ids (build_networkx_graph m)"
    using build_edge_ends[of _ _ m] unfolding build_nodes by blast
next
  fix rs1 r rs2
  assume a: "gd_relationships m = rs1 @ r # rs2 \<and>
             (r_source r \<notin> node_ids (build_networkx_graph m) \<or>
              r_target r \<notin> node_ids (build_networkx_graph m))"
  then have ends: "r_source r \<notin> entity_ids m \<or> r_target r \<notin> entity_ids m"
    unfolding build_nodes by simp
  show "(r_source r, r_target r) \<notin> edge_keys (build_networkx_graph m)"
    using build_edge_ends[of "r_source r" "r_target r" m] ends by blast
  have "m = m\<lparr>gd_relationships := rs1 @ r # rs2\<rparr>"
    using a by simp
  then have "build_networkx_graph m = build_networkx_graph (m\<lparr>gd_relationships := rs1 @ r # rs2\<rparr>)"
    by simp
  also have "\<dots> = build_networkx_graph (m\<lparr>gd_relationships := rs1 @ rs2\<rparr>)"
    by (rule build_ignores_dangling[OF ends])
  finally show "build_networkx_graph m = build_networkx_graph (m\<lparr>gd_relationships := rs1 @ rs2\<rparr>)" .
qed

theorem C5_dangling_relationship_kept_in_list_and_dropped_from_graph_witness:
  "parse_cypher_file script_dangling = Inr model_dangling
   \<and> map (\<lambda>r. (r_source r, r_target r, r_type r)) (gd_relationships model_dangling)
       = [(''N1'', ''N3'', ''LEADS_TO''), (''N1'', ''N9'', ''REQUIRES'')]
   \<and> node_ids (build_networkx_graph model_dangling) = {''N1'', ''N3''}
   \<and> (''N1'', ''N3'') \<in> edge_keys (build_networkx_graph model_dangling)
   \<and> ''N1'' \<in> node_ids (build_networkx_graph model_dangling)
   \<and> ''N3'' \<in> node_ids (build_networkx_graph model_dangling)
   \<and> ''N9'' \<notin> node_ids (build_networkx_graph model_dangling)
   \<and> (''N1'', ''N9'') \<notin> edge_keys (build_networkx_graph model_dangling)
   \<and> build_networkx_graph model_dangling
       = build_networkx_graph
           (model_dangling\<lparr>gd_relationships := [example_relationship ''N3'' ''LEADS_TO'' 3 ''j'']\<rparr>)"
proof -
  note T = C5_dangling_relationship_kept_in_list_and_dropped_from_graph[OF script_dangling_parse]
  have rels: "map (\<lambda>caps. (caps ! 0, caps ! 1, caps ! 2)) (finditer node_relationship_pattern script_dangling) @
           map (\<lambda>caps. (caps ! 0, caps ! 1, ''PREREQUISITE_FOR'')) (finditer prereq_pattern script_dangling)
         = [(''N1'', ''N3'', ''LEADS_TO''), (''N1'', ''N9'', ''REQUIRES'')]"
    unfolding script_dangling_matches by simp
  have ents: "entity_ids model_dangling = {''N1'', ''N3''}"
    by code_simp
  have nodes: "node_ids (build_networkx_graph model_dangling) = {''N1'', ''N3''}"
    using T ents by simp
  have edge: "(''N1'', ''N3'') \<in> edge_keys (build_networkx_graph model_dangling)"
    by code_simp
  have rs: "gd_relationships model_dangling
       = [example_relationship ''N3'' ''LEADS_TO'' 3 ''j''] @ example_relationship ''N9'' ''REQUIRES'' 4 ''k'' # []"
    by (simp add: model_dangling_def)
  have sel: "r_source (example_relationship ''N9'' ''REQUIRES'' 4 ''k'') = ''N1''"
    "r_target (example_relationship ''N9'' ''REQUIRES'' 4 ''k'') = ''N9''"
    by (simp_all add: example_relationship_def)
  have n9: "''N9'' \<notin> node_ids (build_networkx_graph model_dangling)"
    unfolding nodes by simp
  have dangling: "r_source (example_relationship ''N9'' ''REQUIRES'' 4 ''k'') \<notin> node_ids (build_networkx_graph model_dangling) \<or>
     r_target (example_relationship ''N9'' ''REQUIRES'' 4 ''k'') \<notin> node_ids (build_networkx_graph model_dangling)"
    unfolding sel using n9 by simp
  have "(r_source (example_relationship ''N9'' ''REQUIRES'' 4 ''k''),
         r_target (example_relationship ''N9'' ''REQUIRES'' 4 ''k''))
          \<notin> edge_keys (build_networkx_graph model_dangling)
     \<and> build_networkx_graph model_dangling
       = build_networkx_graph
           (model_dangling\<lparr>gd_relationships := [example_relationship ''N3'' ''LEADS_TO'' 3 ''j''] @ []\<rparr>)"
    using T rs dangling by blast
  then have dropped: "(''N1'', ''N9'') \<notin> edge_keys (build_networkx_graph model_dangling)"
    and same: "build_networkx_graph model_dangling
       = build_networkx_graph
           (model_dangling\<lparr>gd_relationships := [example_relationship ''N3'' ''LEADS_TO'' 3 ''j'']\<rparr>)"
    unfolding sel append_Nil2 by blast+
  have ends: "''N1'' \<in> node_ids (build_networkx_graph model_dangling)"
    "''N3'' \<in> node_ids (build_networkx_graph model_dangling)"
    using T edge by blast+
  have raw: "map (\<lambda>r. (r_source r, r_target r, r_type r)) (gd_relationships model_dangling)
       = [(''N1'', ''N3'', ''LEADS_TO''), (''N1'', ''N9'', ''REQUIRES'')]"
    using T rels by simp
  show ?thesis
    by (intro conjI script_dangling_parse raw nodes edge ends n9 dropped same)
qed





section \<open>Results on the parser\<close>

text \<open>
  C3. The claim: a parsed concept for which no CONTAINS statement was recognized has the
  empty list as its derived sequence, not an absent field. The parser sets the key
  \<^verbatim>\<open>sequence\<close> only in its loop over the concepts that have CONTAINS statements
  (\<^verbatim>\<open>for concept_id, nodes in concept_nodes.items()\<close>); the dictionary of any other concept
  has the key \<^verbatim>\<open>nodes\<close>, with the empty list, and no key \<^verbatim>\<open>sequence\<close>. The script that
  creates \<^verbatim>\<open>CONCEPT-1\<close> and has no CONTAINS statement parses to a model whose concept has
  the empty list of nodes and no sequence: its dictionary has no key \<^verbatim>\<open>sequence\<close>.
\<close>

theorem C3_sequence_key_absent_without_contains:
  "parse_cypher_file script_concept_only = Inr model_concept_only
   \<and> gd_concepts model_concept_only = [(''CONCEPT-1'', example_concept [] None)]
   \<and> c_nodes (example_concept [] None) = []
   \<and> c_sequence (example_concept [] None) = None
   \<and> map_of (concept_dict (example_concept [] None)) ''nodes'' = Some (PList [])
   \<and> map_of (concept_dict (example_concept [] None)) ''sequence'' = None
   \<and> map_of (concept_dict (example_concept [] None)) ''sequence'' \<noteq> Some (PList [])"
proof -
  have "gd_concepts model_concept_only = [(''CONCEPT-1'', example_concept [] None)]"
    by (simp add: model_concept_only_def)
  moreover have "c_nodes (example_concept [] None) = []" "c_sequence (example_concept [] None) = None"
    by (simp_all add: example_concept_def)
  moreover have "map_of (concept_dict (example_concept [] None)) ''nodes'' = Some (PList [])"
    "map_of (concept_dict (example_concept [] None)) ''sequence'' = None"
    "map_of (concept_dict (example_concept [] None)) ''sequence'' \<noteq> Some (PList [])"
    by code_simp+
  ultimately show ?thesis
    using script_concept_only_parse by (intro conjI)
qed

text \<open>
  C3, as the code has it. For every parsed concept that no recognized CONTAINS statement
  names, the field \<^verbatim>\<open>sequence\<close> is absent and the list \<^verbatim>\<open>nodes\<close> is empty, in the
  dictionary of the concept and in the attributes of its node in the built graph: the
  concept is a node of type \<^verbatim>\<open>Concept\<close> whose attribute \<^verbatim>\<open>nodes\<close> is the empty list and that
  has no attribute \<^verbatim>\<open>sequence\<close>; and no edge from it carries a position.
\<close>

theorem C3_no_contains_statement_no_sequence_key:
  assumes "parse_cypher_file text = Inr m"
    and "(c, d) \<in> set (gd_concepts m)"
    and "c \<notin> hd ` set (finditer concept_node_pattern text)"
  shows "c_sequence d = None \<and> c_nodes d = []
       \<and> map_of (concept_dict d) ''sequence'' = None
       \<and> map_of (concept_dict d) ''nodes'' = Some (PList [])
       \<and> c \<in> node_ids (build_networkx_graph m)
       \<and> node_attr (build_networkx_graph m) c ''type'' = Some (PStr ''Concept'')
       \<and> node_attr (build_networkx_graph m) c ''nodes'' = Some (PList [])
       \<and> node_attr (build_networkx_graph m) c ''sequence'' = None
       \<and> (\<forall>v. edge_attr (build_networkx_graph m) c v ''sequence'' = None)"
proof -
  have wf: "wf_model m"
    by (rule parse_wf_model[OF assms(1)])
  have look: "map_of (gd_concepts m) c = Some d"
    by (rule map_of_distinct_mem[OF parsed_dict_keys(2)[OF assms(1)] assms(2)])
  have none: "declared_members (finditer concept_node_pattern text) c = []"
    by (rule declared_members_none[OF assms(3)])
  have s: "c_sequence d = None" and n: "c_nodes d = []"
    using parsed_concept_fields[OF assms(1) look] none by simp_all
  have dict: "map_of (concept_dict d) ''sequence'' = None"
    "map_of (concept_dict d) ''nodes'' = Some (PList [])"
    using s n by (simp_all add: concept_dict_def)
  have node: "c \<in> node_ids (build_networkx_graph m)"
    unfolding build_nodes using assms(2) concept_keys_entities[of m] by (auto simp: rev_image_eqI)
  have attrs: "node_attr (build_networkx_graph m) c ''type'' = Some (PStr ''Concept'')"
    "node_attr (build_networkx_graph m) c ''nodes'' = Some (PList [])"
    "node_attr (build_networkx_graph m) c ''sequence'' = None"
    using dict by (simp_all add: build_concept_node_attrs[OF wf assms(2)])
  have edges: "\<forall>v. edge_attr (build_networkx_graph m) c v ''sequence'' = None"
    using build_no_sequence_edges[OF wf assms(2) s] by blast
  show ?thesis
    by (intro conjI s n dict node attrs edges)
qed

theorem C3_no_contains_statement_no_sequence_key_witness:
  "parse_cypher_file script_concept_only = Inr model_concept_only
   \<and> (''CONCEPT-1'', example_concept [] None) \<in> set (gd_concepts model_concept_only)
   \<and> ''CONCEPT-1'' \<notin> hd ` set (finditer concept_node_pattern script_concept_only)
   \<and> c_sequence (example_concept [] None) = None
   \<and> c_nodes (example_concept [] None) = []
   \<and> map_of (concept_dict (example_concept [] None)) ''sequence'' = None
   \<and> map_of (concept_dict (example_concept [] None)) ''nodes'' = Some (PList [])
   \<and> ''CONCEPT-1'' \<in> node_ids (build_networkx_graph model_concept_only)
   \<and> node_attr (build_networkx_graph model_concept_only) ''CONCEPT-1'' ''type'' = Some (PStr ''Concept'')
   \<and> node_attr (build_networkx_graph model_concept_only) ''CONCEPT-1'' ''nodes'' = Some (PList [])
   \<and> node_attr (build_networkx_graph model_concept_only) ''CONCEPT-1'' ''sequence'' = None
   \<and> edge_attr (build_networkx_graph model_concept_only) ''CONCEPT-1'' ''N1'' ''sequence'' = None"
proof -
  have mem: "(''CONCEPT-1'', example_concept [] None) \<in> set (gd_concepts model_concept_only)"
    by (simp add: model_concept_only_def)
  have no: "''CONCEPT-1'' \<notin> hd ` set (finditer concept_node_pattern script_concept_only)"
    unfolding script_concept_only_matches by simp
  show ?thesis
    using C3_no_contains_statement_no_sequence_key[OF script_concept_only_parse mem no]
      script_concept_only_parse mem no by blast
qed

text \<open>
  C4. For every parsed concept with recognized CONTAINS statements, \<open>pairs\<close> being the
  pairs (member, declared sequence number) of these statements in statement order: the
  derived sequence lists the members of the pairs sorted by \<^verbatim>\<open>sorted(nodes, key=...)\<close>;
  the sorted pairs are ascending in the sequence number, a rearrangement of \<open>pairs\<close>, and
  pairs with the same sequence number keep their statement order. The member at index
  \<open>i\<close> of the derived sequence, if it is an entity and does not occur again later, has a
  CONTAINS edge from the concept with position \<open>i + 1\<close>; and every position carried by
  an edge from the concept to a member is a rank of that member in the derived sequence.
\<close>

theorem C4_sequence_sorted_stably_and_positions_are_ranks:
  assumes "parse_cypher_file text = Inr m"
    and "(c, d) \<in> set (gd_concepts m)"
    and "declared_members (finditer concept_node_pattern text) c = pairs"
    and "pairs \<noteq> []"
    and "sort_key snd pairs = sorted_pairs"
    and "map fst sorted_pairs = seq"
  shows "c_sequence d = Some seq
       \<and> sorted (map snd sorted_pairs)
       \<and> mset sorted_pairs = mset pairs
       \<and> (\<forall>k. filter (\<lambda>x. snd x = k) sorted_pairs = filter (\<lambda>x. snd x = k) pairs)
       \<and> (\<forall>i < length seq.
            seq ! i \<in> node_ids (build_networkx_graph m) \<and> seq ! i \<notin> set (drop (Suc i) seq) \<longrightarrow>
            edge_attr (build_networkx_graph m) c (seq ! i) ''sequence'' = Some (PInt (int i + 1)) \<and>
            edge_attr (build_networkx_graph m) c (seq ! i) ''relation'' = Some (PStr ''CONTAINS''))
       \<and> (\<forall>v p. edge_attr (build_networkx_graph m) c v ''sequence'' = Some p \<longrightarrow>
            (\<exists>i < length seq. seq ! i = v \<and> p = PInt (int i + 1)))"
proof -
  have wf: "wf_model m"
    by (rule parse_wf_model[OF assms(1)])
  have look: "map_of (gd_concepts m) c = Some d"
    by (rule map_of_distinct_mem[OF parsed_dict_keys(2)[OF assms(1)] assms(2)])
  have s: "c_sequence d = Some seq"
    using parsed_concept_fields(1)[OF assms(1) look] assms(3-6) by simp
  have sorted: "sorted (map snd sorted_pairs)"
    unfolding assms(5)[symmetric] by (rule sorted_sort_key)
  have perm: "mset sorted_pairs = mset pairs"
    unfolding assms(5)[symmetric] by simp
  have stable: "filter (\<lambda>x. snd x = k) sorted_pairs = filter (\<lambda>x. snd x = k) pairs" for k
    unfolding assms(5)[symmetric] by (rule sort_key_stable)
  have effect: "edge_attr (build_networkx_graph m) c (seq ! i) ''sequence'' = Some (PInt (int i + 1)) \<and>
            edge_attr (build_networkx_graph m) c (seq ! i) ''relation'' = Some (PStr ''CONTAINS'')"
    if "i < length seq" "seq ! i \<in> node_ids (build_networkx_graph m) \<and> seq ! i \<notin> set (drop (Suc i) seq)" for i
    using build_contains_effect[OF wf assms(2) s that(1)] that(2) unfolding build_nodes by simp
  have ranks: "\<exists>i < length seq. seq ! i = v \<and> p = PInt (int i + 1)"
    if "edge_attr (build_networkx_graph m) c v ''sequence'' = Some p" for v p
    using build_contains_positions[OF wf assms(2) s that] by blast
  show ?thesis
    using s sorted perm stable effect ranks by blast
qed

theorem C4_sequence_sorted_stably_and_positions_are_ranks_witness:
  "parse_cypher_file script_sequence = Inr model_sequence
   \<and> (''CONCEPT-1'', example_concept [''N3'', ''N1'', ''N2''] (Some [''N1'', ''N2'', ''N3'']))
        \<in> set (gd_concepts model_sequence)
   \<and> declared_members (finditer concept_node_pattern script_sequence) ''CONCEPT-1''
        = [(''N3'', 2), (''N1'', 0), (''N2'', 1)]
   \<and> sort_key snd [(''N3'', 2::int), (''N1'', 0), (''N2'', 1)] = [(''N1'', 0), (''N2'', 1), (''N3'', 2)]
   \<and> c_sequence (example_concept [''N3'', ''N1'', ''N2''] (Some [''N1'', ''N2'', ''N3'']))
        = Some [''N1'', ''N2'', ''N3'']
   \<and> edge_attr (build_networkx_graph model_sequence) ''CONCEPT-1'' ''N1'' ''sequence'' = Some (PInt 1)
   \<and> edge_attr (build_networkx_graph model_sequence) ''CONCEPT-1'' ''N2'' ''sequence'' = Some (PInt 2)
   \<and> edge_attr (build_networkx_graph model_sequence) ''CONCEPT-1'' ''N3'' ''sequence'' = Some (PInt 3)
   \<and> edge_attr (build_networkx_graph model_sequence) ''CONCEPT-1'' ''N1'' ''relation'' = Some (PStr ''CONTAINS'')"
proof -
  have mem: "(''CONCEPT-1'', example_concept [''N3'', ''N1'', ''N2''] (Some [''N1'', ''N2'', ''N3'']))
        \<in> set (gd_concepts model_sequence)"
    by (simp add: model_sequence_def)
  have pairs: "declared_members (finditer concept_node_pattern script_sequence) ''CONCEPT-1''
        = [(''N3'', 2), (''N1'', 0), (''N2'', 1)]"
    unfolding script_sequence_matches by code_simp
  have ne: "[(''N3'', 2::int), (''N1'', 0), (''N2'', 1)] \<noteq> []"
    by simp
  have sorted: "sort_key snd [(''N3'', 2::int), (''N1'', 0), (''N2'', 1)] = [(''N1'', 0), (''N2'', 1), (''N3'', 2)]"
    by code_simp
  have seq: "map fst [(''N1'', 0::int), (''N2'', 1), (''N3'', 2)] = [''N1'', ''N2'', ''N3'']"
    by simp
  have nodes: "''N1'' \<in> node_ids (build_networkx_graph model_sequence)"
    "''N2'' \<in> node_ids (build_networkx_graph model_sequence)"
    "''N3'' \<in> node_ids (build_networkx_graph model_sequence)"
    unfolding build_nodes by code_simp+
  note T = C4_sequence_sorted_stably_and_positions_are_ranks[OF script_sequence_parse mem pairs ne sorted seq]
  have s: "c_sequence (example_concept [''N3'', ''N1'', ''N2''] (Some [''N1'', ''N2'', ''N3'']))
        = Some [''N1'', ''N2'', ''N3'']"
    using T by blast
  have eff: "\<forall>i < length [''N1'', ''N2'', ''N3''].
            [''N1'', ''N2'', ''N3''] ! i \<in> node_ids (build_networkx_graph model_sequence) \<and>
            [''N1'', ''N2'', ''N3''] ! i \<notin> set (drop (Suc i) [''N1'', ''N2'', ''N3'']) \<longrightarrow>
            edge_attr (build_networkx_graph model_sequence) ''CONCEPT-1'' ([''N1'', ''N2'', ''N3''] ! i) ''sequence''
              = Some (PInt (int i + 1)) \<and>
            edge_attr (build_networkx_graph model_sequence) ''CONCEPT-1'' ([''N1'', ''N2'', ''N3''] ! i) ''relation''
              = Some (PStr ''CONTAINS'')"
    using T by blast
  have e1: "edge_attr (build_networkx_graph model_sequence) ''CONCEPT-1'' ''N1'' ''sequence'' = Some (PInt 1)
     \<and> edge_attr (build_networkx_graph model_sequence) ''CONCEPT-1'' ''N1'' ''relation'' = Some (PStr ''CONTAINS'')"
    using eff[rule_format, of 0] nodes by simp
  have e2: "edge_attr (build_networkx_graph model_sequence) ''CONCEPT-1'' ''N2'' ''sequence'' = Some (PInt 2)"
    using eff[rule_format, of 1] nodes by simp
  have e3: "edge_attr (build_networkx_graph model_sequence) ''CONCEPT-1'' ''N3'' ''sequence'' = Some (PInt 3)"
    using eff[rule_format, of 2] nodes by simp
  show ?thesis
    using script_sequence_parse mem pairs sorted s e1 e2 e3 by blast
qed


text \<open>
  C9. For every parsed concept and every member that two or more recognized CONTAINS
  statements of the concept name (whatever their sequence numbers): the derived sequence
  of the concept holds the member as often as the statements name it, so more than
  once; the built graph has at most one edge from the concept to the member, and, if
  the member is a node of the graph, exactly one, of kind CONTAINS, whose position is
  \<open>i + 1\<close> for the index \<open>i\<close> of the last occurrence of the member in the derived sequence.
\<close>

theorem C9_repeated_member_one_edge_last_rank:
  assumes "parse_cypher_file text = Inr m"
    and "(c, d) \<in> set (gd_concepts m)"
    and "2 \<le> count_list (map fst (declared_members (finditer concept_node_pattern text) c)) n"
  shows "\<exists>seq i. c_sequence d = Some seq
       \<and> count_list seq n = count_list (map fst (declared_members (finditer concept_node_pattern text) c)) n
       \<and> i < length seq \<and> seq ! i = n \<and> n \<notin> set (drop (Suc i) seq)
       \<and> length (filter (\<lambda>e. fst e = (c, n)) (g_adj (build_networkx_graph m))) \<le> 1
       \<and> (n \<in> node_ids (build_networkx_graph m) \<longrightarrow>
            length (filter (\<lambda>e. fst e = (c, n)) (g_adj (build_networkx_graph m))) = 1 \<and>
            edge_attr (build_networkx_graph m) c n ''relation'' = Some (PStr ''CONTAINS'') \<and>
            edge_attr (build_networkx_graph m) c n ''sequence'' = Some (PInt (int i + 1)))"
proof -
  define pairs where "pairs = declared_members (finditer concept_node_pattern text) c"
  define seq where "seq = map fst (sort_key snd pairs)"
  have wf: "wf_model m"
    by (rule parse_wf_model[OF assms(1)])
  have look: "map_of (gd_concepts m) c = Some d"
    by (rule map_of_distinct_mem[OF parsed_dict_keys(2)[OF assms(1)] assms(2)])
  have twice: "2 \<le> count_list (map fst pairs) n"
    using assms(3) by (simp add: pairs_def)
  have ne: "pairs \<noteq> []"
  proof
    assume "pairs = []"
    then show False
      using twice by simp
  qed
  have s: "c_sequence d = Some seq"
    using parsed_concept_fields(1)[OF assms(1) look] ne by (simp add: pairs_def seq_def)
  have cnt: "count_list seq n = count_list (map fst pairs) n"
    unfolding seq_def by (rule count_list_sort_key)
  have "0 < count_list seq n"
    unfolding cnt using twice by simp
  then have "n \<in> set seq"
    by (rule count_list_mem)
  from last_occurrence[OF this]
  obtain i where i: "i < length seq" "seq ! i = n" "n \<notin> set (drop (Suc i) seq)"
    by blast
  have dist: "distinct (map fst (g_adj (build_networkx_graph m)))"
    by (rule build_distinct_edges)
  have one: "length (filter (\<lambda>e. fst e = (c, n)) (g_adj (build_networkx_graph m))) \<le> 1"
    using dist by (rule distinct_filter_key_le)
  have present: "length (filter (\<lambda>e. fst e = (c, n)) (g_adj (build_networkx_graph m))) = 1 \<and>
            edge_attr (build_networkx_graph m) c n ''relation'' = Some (PStr ''CONTAINS'') \<and>
            edge_attr (build_networkx_graph m) c n ''sequence'' = Some (PInt (int i + 1))"
    if "n \<in> node_ids (build_networkx_graph m)"
  proof -
    have ent: "seq ! i \<in> entity_ids m" and lastocc: "seq ! i \<notin> set (drop (Suc i) seq)"
      using that i unfolding build_nodes by simp_all
    have eff: "edge_attr (build_networkx_graph m) c n ''sequence'' = Some (PInt (int i + 1))"
      "edge_attr (build_networkx_graph m) c n ''relation'' = Some (PStr ''CONTAINS'')"
      using build_contains_effect[OF wf assms(2) s i(1) ent lastocc] i(2) by simp_all
    have "map_of (g_adj (build_networkx_graph m)) (c, n) \<noteq> None"
      using eff(1) by (cases "map_of (g_adj (build_networkx_graph m)) (c, n)") (simp_all add: edge_attr_def)
    then have "(c, n) \<in> fst ` set (g_adj (build_networkx_graph m))"
      by (simp add: map_of_eq_None_iff)
    then obtain e where "e \<in> set (g_adj (build_networkx_graph m))" "fst e = (c, n)"
      by (metis imageE)
    then have "e \<in> set (filter (\<lambda>e. fst e = (c, n)) (g_adj (build_networkx_graph m)))"
      by simp
    then have "0 < length (filter (\<lambda>e. fst e = (c, n)) (g_adj (build_networkx_graph m)))"
      by (rule length_pos_if_in_set)
    then have "length (filter (\<lambda>e. fst e = (c, n)) (g_adj (build_networkx_graph m))) = 1"
      using one by linarith
    then show ?thesis
      using eff by blast
  qed
  have "c_sequence d = Some seq
       \<and> count_list seq n = count_list (map fst pairs) n
       \<and> i < length seq \<and> seq ! i = n \<and> n \<notin> set (drop (Suc i) seq)
       \<and> length (filter (\<lambda>e. fst e = (c, n)) (g_adj (build_networkx_graph m))) \<le> 1
       \<and> (n \<in> node_ids (build_networkx_graph m) \<longrightarrow>
            length (filter (\<lambda>e. fst e = (c, n)) (g_adj (build_networkx_graph m))) = 1 \<and>
            edge_attr (build_networkx_graph m) c n ''relation'' = Some (PStr ''CONTAINS'') \<and>
            edge_attr (build_networkx_graph m) c n ''sequence'' = Some (PInt (int i + 1)))"
    by (intro conjI impI s cnt i one present)
  then show ?thesis
    unfolding pairs_def by (intro exI)
qed

theorem C9_repeated_member_one_edge_last_rank_witness:
  "parse_cypher_file script_repeated = Inr model_repeated
   \<and> (''CONCEPT-1'', example_concept [''N1'', ''N2''] (Some [''N1'', ''N2'', ''N1'']))
        \<in> set (gd_concepts model_repeated)
   \<and> declared_members (finditer concept_node_pattern script_repeated) ''CONCEPT-1''
        = [(''N1'', 0), (''N2'', 1), (''N1'', 5)]
   \<and> c_sequence (example_concept [''N1'', ''N2''] (Some [''N1'', ''N2'', ''N1''])) = Some [''N1'', ''N2'', ''N1'']
   \<and> count_list [''N1'', ''N2'', ''N1''] ''N1'' = 2
   \<and> ''N1'' \<in> node_ids (build_networkx_graph model_repeated)
   \<and> length (filter (\<lambda>e. fst e = (''CONCEPT-1'', ''N1'')) (g_adj (build_networkx_graph model_repeated))) = 1
   \<and> edge_attr (build_networkx_graph model_repeated) ''CONCEPT-1'' ''N1'' ''relation'' = Some (PStr ''CONTAINS'')
   \<and> edge_attr (build_networkx_graph model_repeated) ''CONCEPT-1'' ''N1'' ''sequence'' = Some (PInt 3)"
proof -
  have mem: "(''CONCEPT-1'', example_concept [''N1'', ''N2''] (Some [''N1'', ''N2'', ''N1'']))
        \<in> set (gd_concepts model_repeated)"
    by (simp add: model_repeated_def)
  have pairs: "declared_members (finditer concept_node_pattern script_repeated) ''CONCEPT-1''
        = [(''N1'', 0), (''N2'', 1), (''N1'', 5)]"
    unfolding script_repeated_matches by code_simp
  have twice: "2 \<le> count_list (map fst (declared_members (finditer concept_node_pattern script_repeated)
                   ''CONCEPT-1'')) ''N1''"
    unfolding pairs by simp
  have node: "''N1'' \<in> node_ids (build_networkx_graph model_repeated)"
    unfolding build_nodes by code_simp
  have field: "c_sequence (example_concept [''N1'', ''N2''] (Some [''N1'', ''N2'', ''N1''])) = Some [''N1'', ''N2'', ''N1'']"
    by (simp add: example_concept_def)
  obtain seq i where s: "c_sequence (example_concept [''N1'', ''N2''] (Some [''N1'', ''N2'', ''N1''])) = Some seq"
    and cnt: "count_list seq ''N1'' = count_list (map fst (declared_members
                 (finditer concept_node_pattern script_repeated) ''CONCEPT-1'')) ''N1''"
    and i: "i < length seq" "seq ! i = ''N1''" "''N1'' \<notin> set (drop (Suc i) seq)"
    and edge: "''N1'' \<in> node_ids (build_networkx_graph model_repeated) \<longrightarrow>
            length (filter (\<lambda>e. fst e = (''CONCEPT-1'', ''N1'')) (g_adj (build_networkx_graph model_repeated))) = 1 \<and>
            edge_attr (build_networkx_graph model_repeated) ''CONCEPT-1'' ''N1'' ''relation'' = Some (PStr ''CONTAINS'') \<and>
            edge_attr (build_networkx_graph model_repeated) ''CONCEPT-1'' ''N1'' ''sequence'' = Some (PInt (int i + 1))"
    using C9_repeated_member_one_edge_last_rank[OF script_repeated_parse mem twice] by blast
  have seq: "seq = [''N1'', ''N2'', ''N1'']"
    using s field by simp
  have "i < 3"
    using i(1) unfolding seq by simp
  then consider "i = 0" | "i = 1" | "i = 2"
    by linarith
  then have last: "i = 2"
  proof cases
    case 1
    then show ?thesis
      using i(3) unfolding seq by simp
  next
    case 2
    then show ?thesis
      using i(2) unfolding seq by simp
  next
    case 3
    then show ?thesis .
  qed
  have count: "count_list [''N1'', ''N2'', ''N1''] ''N1'' = 2"
    using cnt unfolding seq pairs by simp
  have e: "length (filter (\<lambda>e. fst e = (''CONCEPT-1'', ''N1'')) (g_adj (build_networkx_graph model_repeated))) = 1"
    "edge_attr (build_networkx_graph model_repeated) ''CONCEPT-1'' ''N1'' ''relation'' = Some (PStr ''CONTAINS'')"
    "edge_attr (build_networkx_graph model_repeated) ''CONCEPT-1'' ''N1'' ''sequence'' = Some (PInt 3)"
    using edge node unfolding last by simp_all
  show ?thesis
    by (intro conjI script_repeated_parse mem pairs field count node e)
qed


text \<open>
  C8. The claim: for every script, parsing returns a model and never raises, and the
  numeric fields of every recognized statement convert without failure. The parser
  converts with \<^verbatim>\<open>int\<close>, which raises \<^verbatim>\<open>ValueError\<close> for a text of more than 4300 digits
  (the limit of CPython on the conversion of a decimal string to an integer), and the
  patterns take digit strings of any length (\<^verbatim>\<open>\d+\<close>). The script of one CONTAINS
  statement whose sequence number is the digit 1 written 4301 times is recognized, its
  only numeric field is that digit string, and \<open>parse_cypher_file\<close> raises \<^verbatim>\<open>ValueError\<close>.
\<close>

theorem C8_long_sequence_number_raises:
  "digits (replicate 4301 CHR ''1'')
   \<and> finditer concept_node_pattern (contains_with_sequence (replicate 4301 CHR ''1''))
       = [[''CONCEPT-1'', ''N1'', replicate 4301 CHR ''1'']]
   \<and> numeric_fields (contains_with_sequence (replicate 4301 CHR ''1'')) = [replicate 4301 CHR ''1'']
   \<and> parse_cypher_file (contains_with_sequence (replicate 4301 CHR ''1'')) = Inl ValueError"
proof -
  have d: "digits (replicate 4301 CHR ''1'')"
    by (rule digits_replicate) simp_all
  have long: "\<not> short (replicate 4301 CHR ''1'')"
    by (simp only: short_def int_max_str_digits_def length_replicate)
  show ?thesis
    by (intro conjI d contains_with_sequence_matches(7)[OF d] contains_with_sequence_fields[OF d]
        contains_with_long_sequence[OF d long])
qed

text \<open>
  C8, as the code has it. For every script: the numeric fields of the recognized
  statements are non-empty digit strings; parsing returns a model if and only if each of
  them has at most 4300 digits, and raises \<^verbatim>\<open>ValueError\<close> otherwise. When it returns a
  model, the keys of the three entity dictionaries are the identifiers of the matches of
  the three creation patterns and the relationship list has one entry per match of the
  two relationship patterns: text that no pattern matches contributes nothing. A
  script in which no pattern matches parses to the empty model.
\<close>

theorem C8_parse_returns_iff_numeric_fields_short:
  "list_all digits (numeric_fields text)
   \<and> ((\<exists>m. parse_cypher_file text = Inr m) \<longleftrightarrow> list_all short (numeric_fields text))
   \<and> (parse_cypher_file text = Inl ValueError \<longleftrightarrow> \<not> list_all short (numeric_fields text))
   \<and> (\<forall>m. parse_cypher_file text = Inr m \<longrightarrow>
          fst ` set (gd_knowledge_nodes m) = hd ` set (finditer knowledge_node_pattern text) \<and>
          fst ` set (gd_concepts m) = hd ` set (finditer concept_pattern text) \<and>
          fst ` set (gd_learning_paths m) = hd ` set (finditer path_pattern text) \<and>
          map (\<lambda>r. (r_source r, r_target r, r_type r)) (gd_relationships m) =
            map (\<lambda>caps. (caps ! 0, caps ! 1, caps ! 2)) (finditer node_relationship_pattern text) @
            map (\<lambda>caps. (caps ! 0, caps ! 1, ''PREREQUISITE_FOR'')) (finditer prereq_pattern text))
   \<and> (finditer knowledge_node_pattern text = [] \<and> finditer concept_pattern text = [] \<and>
        finditer path_pattern text = [] \<and> finditer node_relationship_pattern text = [] \<and>
        finditer concept_node_pattern text = [] \<and> finditer path_concept_pattern text = [] \<and>
        finditer prereq_pattern text = [] \<longrightarrow>
        parse_cypher_file text =
          Inr \<lparr>gd_knowledge_nodes = [], gd_concepts = [], gd_learning_paths = [], gd_relationships = []\<rparr>)"
proof (intro conjI allI impI)
  show "list_all digits (numeric_fields text)"
    by (rule numeric_fields_digits)
  show returns: "(\<exists>m. parse_cypher_file text = Inr m) \<longleftrightarrow> list_all short (numeric_fields text)"
    by (rule parse_returns_iff)
  show "parse_cypher_file text = Inl ValueError \<longleftrightarrow> \<not> list_all short (numeric_fields text)"
  proof (cases "parse_cypher_file text")
    case (Inl e)
    then have "parse_cypher_file text = Inl ValueError"
      by (cases e) simp
    then show ?thesis
      using returns by auto
  next
    case (Inr m)
    then show ?thesis
      using returns by auto
  qed
next
  fix m
  assume parse: "parse_cypher_file text = Inr m"
  show "fst ` set (gd_knowledge_nodes m) = hd ` set (finditer knowledge_node_pattern text)"
    "fst ` set (gd_concepts m) = hd ` set (finditer concept_pattern text)"
    "fst ` set (gd_learning_paths m) = hd ` set (finditer path_pattern text)"
    by (rule parsed_dict_keys[OF parse])+
  show "map (\<lambda>r. (r_source r, r_target r, r_type r)) (gd_relationships m) =
            map (\<lambda>caps. (caps ! 0, caps ! 1, caps ! 2)) (finditer node_relationship_pattern text) @
            map (\<lambda>caps. (caps ! 0, caps ! 1, ''PREREQUISITE_FOR'')) (finditer prereq_pattern text)"
    by (rule parsed_relationships[OF parse])
next
  assume "finditer knowledge_node_pattern text = [] \<and> finditer concept_pattern text = [] \<and>
        finditer path_pattern text = [] \<and> finditer node_relationship_pattern text = [] \<and>
        finditer concept_node_pattern text = [] \<and> finditer path_concept_pattern text = [] \<and>
        finditer prereq_pattern text = []"
  then show "parse_cypher_file text =
          Inr \<lparr>gd_knowledge_nodes = [], gd_concepts = [], gd_learning_paths = [], gd_relationships = []\<rparr>"
    by (intro parse_nothing_recognized) simp_all
qed

theorem C8_parse_returns_iff_numeric_fields_short_witness:
  "finditer knowledge_node_pattern script_unrecognized = [] \<and> finditer concept_pattern script_unrecognized = []
   \<and> finditer path_pattern script_unrecognized = [] \<and> finditer node_relationship_pattern script_unrecognized = []
   \<and> finditer concept_node_pattern script_unrecognized = [] \<and> finditer path_concept_pattern script_unrecognized = []
   \<and> finditer prereq_pattern script_unrecognized = []
   \<and> parse_cypher_file script_unrecognized =
        Inr \<lparr>gd_knowledge_nodes = [], gd_concepts = [], gd_learning_paths = [], gd_relationships = []\<rparr>
   \<and> numeric_fields script_sequence = [''5'', ''5'', ''5'', ''30'', ''2'', ''0'', ''1'']
   \<and> list_all short (numeric_fields script_sequence)
   \<and> parse_cypher_file script_sequence = Inr model_sequence
   \<and> fst ` set (gd_knowledge_nodes model_sequence) = {''N1'', ''N2'', ''N3''}
   \<and> fst ` set (gd_concepts model_sequence) = {''CONCEPT-1''}
   \<and> fst ` set (gd_learning_paths model_sequence) = {}
   \<and> gd_relationships model_sequence = []"
proof -
  note U = C8_parse_returns_iff_numeric_fields_short[of script_unrecognized]
  note S = C8_parse_returns_iff_numeric_fields_short[of script_sequence]
  have empty: "parse_cypher_file script_unrecognized =
        Inr \<lparr>gd_knowledge_nodes = [], gd_concepts = [], gd_learning_paths = [], gd_relationships = []\<rparr>"
    by (rule U[THEN conjunct2, THEN conjunct2, THEN conjunct2, THEN conjunct2, rule_format])
       (intro conjI script_unrecognized_matches)
  have fields: "numeric_fields script_sequence = [''5'', ''5'', ''5'', ''30'', ''2'', ''0'', ''1'']"
    unfolding numeric_fields_def script_sequence_matches by simp
  have "\<exists>m. parse_cypher_file script_sequence = Inr m"
    using script_sequence_parse by (rule exI)
  then have short: "list_all short (numeric_fields script_sequence)"
    using S[THEN conjunct2, THEN conjunct1] by (rule rev_iffD1)
  note K = S[THEN conjunct2, THEN conjunct2, THEN conjunct2, THEN conjunct1, rule_format,
      OF script_sequence_parse]
  note keys = K[THEN conjunct1] K[THEN conjunct2, THEN conjunct1]
    K[THEN conjunct2, THEN conjunct2, THEN conjunct1] K[THEN conjunct2, THEN conjunct2, THEN conjunct2]
  have k1: "fst ` set (gd_knowledge_nodes model_sequence) = {''N1'', ''N2'', ''N3''}"
    unfolding keys(1) script_sequence_matches by simp
  have k2: "fst ` set (gd_concepts model_sequence) = {''CONCEPT-1''}"
    unfolding keys(2) script_sequence_matches by simp
  have k3: "fst ` set (gd_learning_paths model_sequence) = {}"
    unfolding keys(3) script_sequence_matches by simp
  have k4: "gd_relationships model_sequence = []"
    using keys(4) unfolding script_sequence_matches by simp
  show ?thesis
    by (intro conjI script_unrecognized_matches empty fields short script_sequence_parse k1 k2 k3 k4)
qed


end
